theory Spec2Isabelle
  imports Complex_Main "HOL-Library.AList" "HOL-Library.Multiset"
begin

section \<open>JavaScript values and helpers\<close>

text \<open>
  A JavaScript \<open>Map\<close> keeps its keys in insertion order: it is an association list.
  \<open>Map.set\<close> overwrites the value of a present key in place and appends a new key at
  the end, \<open>Map.has\<close> and \<open>Map.get\<close> look a key up.
\<close>

type_synonym ('k, 'v) js_map = "('k \<times> 'v) list"

definition map_has :: "('k, 'v) js_map \<Rightarrow> 'k \<Rightarrow> bool" where
  "map_has m k = (map_of m k \<noteq> None)"

definition map_get :: "('k, 'v) js_map \<Rightarrow> 'k \<Rightarrow> 'v option" where
  "map_get m k = map_of m k"

definition map_set :: "'k \<Rightarrow> 'v \<Rightarrow> ('k, 'v) js_map \<Rightarrow> ('k, 'v) js_map" where
  "map_set k v m = AList.update k v m"

definition map_values :: "('k, 'v) js_map \<Rightarrow> 'v list" where
  "map_values m = map snd m"

text \<open>
  The remainder operator \<open>%\<close> of JavaScript on integral numbers: the result has the sign
  of the dividend. (A zero divisor gives NaN; the program only divides by 360.)
\<close>

definition js_rem :: "int \<Rightarrow> int \<Rightarrow> int" where
  "js_rem a b = (if 0 \<le> a then a mod \<bar>b\<bar> else - ((- a) mod \<bar>b\<bar>))"

text \<open>A rejected promise carries an \<open>Error\<close> object: its name and its message.\<close>

record js_error =
  err_name :: string
  message :: string

definition Error :: "string \<Rightarrow> js_error" where
  "Error msg = \<lparr>err_name = ''Error'', message = msg\<rparr>"

definition TypeError :: "string \<Rightarrow> js_error" where
  "TypeError msg = \<lparr>err_name = ''TypeError'', message = msg\<rparr>"

datatype 'a promise = Fulfilled 'a | Rejected js_error

section \<open>The data provider (my-road-viewer/data-provider.js)\<close>

subsection \<open>Data model\<close>

text \<open>
  A survey point as the core receives it. The id is kept as the string that the template
  literal \<open>`point${point.id}_front`\<close> renders; headings and image sizes are integral
  numbers, coordinates are real numbers.
\<close>

record SurveyPoint =
  pid :: string
  lat :: real
  long :: real
  heading_front :: int
  front :: string
  rear :: string
  front_width :: int
  front_height :: int
  rear_width :: int
  rear_height :: int

record LatLng =
  geo_lat :: real
  geo_lng :: real

record resource =
  res_id :: string
  url :: string

record creator_info =
  creator_id :: string
  username :: string

record ImageEntity =
  image_id :: string
  sequence :: string
  merge_id :: string
  computed_geometry :: LatLng
  geometry :: LatLng
  computed_rotation :: "real list"
  camera_type :: string
  camera_parameters :: "real list"
  width :: int
  height :: int
  thumb :: resource
  mesh :: resource
  cluster :: resource
  captured_at :: int
  creator :: creator_info
  point_id :: string

record Sequence =
  seq_id :: string
  image_ids :: "string list"

text \<open>
  The provider object. \<open>lngLatToCellId\<close> is the cell function of the geometry provider
  handed to the base class (the S2 geometry of the viewer library): a parameter here.
\<close>

record provider =
  surveyData :: "SurveyPoint list"
  images :: "(string, ImageEntity) js_map"
  sequences :: "(string, Sequence) js_map"
  cells :: "(string, ImageEntity list) js_map"

subsection \<open>Construction\<close>

definition createImageEnt ::
  "string \<Rightarrow> string \<Rightarrow> real \<Rightarrow> real \<Rightarrow> real \<Rightarrow> int \<Rightarrow> int \<Rightarrow> string \<Rightarrow> string \<Rightarrow> int
    \<Rightarrow> ImageEntity" where
  "createImageEnt ident sequenceId la lo hRad w h imageUrl pointId now =
     \<lparr>image_id = ident,
      sequence = sequenceId,
      merge_id = ''sample_2024'',
      computed_geometry = \<lparr>geo_lat = la, geo_lng = lo\<rparr>,
      geometry = \<lparr>geo_lat = la, geo_lng = lo\<rparr>,
      computed_rotation = [pi / 2, 0, hRad],
      camera_type = ''perspective'',
      camera_parameters = [0.8, 0, 0],
      width = w,
      height = h,
      thumb = \<lparr>res_id = ident @ ''_thumb'', url = imageUrl\<rparr>,
      mesh = \<lparr>res_id = ident @ ''_mesh'', url = ''''\<rparr>,
      cluster = \<lparr>res_id = ident @ ''_cluster'', url = ''''\<rparr>,
      captured_at = now,
      creator = \<lparr>creator_id = ''user'', username = ''survey''\<rparr>,
      point_id = pointId\<rparr>"

definition front_id :: "SurveyPoint \<Rightarrow> string" where
  "front_id point = ''point'' @ pid point @ ''_front''"

definition rear_id :: "SurveyPoint \<Rightarrow> string" where
  "rear_id point = ''point'' @ pid point @ ''_rear''"

definition headingRad :: "SurveyPoint \<Rightarrow> real" where
  "headingRad point = (of_int (heading_front point) * pi) / 180"

definition rearHeadingDeg :: "SurveyPoint \<Rightarrow> int" where
  "rearHeadingDeg point = js_rem (heading_front point + 180) 360"

definition rearHeadingRad :: "SurveyPoint \<Rightarrow> real" where
  "rearHeadingRad point = of_int (rearHeadingDeg point) * pi / 180"

definition frontImage :: "SurveyPoint \<Rightarrow> int \<Rightarrow> ImageEntity" where
  "frontImage point now =
     createImageEnt (front_id point) ''seq_front'' (lat point) (long point)
       (headingRad point) (front_width point) (front_height point)
       (''./images/'' @ front point) (pid point) now"

definition rearImage :: "SurveyPoint \<Rightarrow> int \<Rightarrow> ImageEntity" where
  "rearImage point now =
     createImageEnt (rear_id point) ''seq_rear'' (lat point) (long point)
       (rearHeadingRad point) (rear_width point) (rear_height point)
       (''./images/'' @ rear point) (pid point) now"

text \<open>
  The first loop of \<open>_processSurveyData\<close>: its state is the id map and the two local
  arrays, and the number of clock readings taken so far (\<open>Date.now()\<close> is read once per
  entity; \<open>clock k\<close> is the k-th reading).
\<close>

record build_state =
  b_images :: "(string, ImageEntity) js_map"
  frontImages :: "ImageEntity list"
  rearImages :: "ImageEntity list"
  ticks :: nat

definition process_point :: "(nat \<Rightarrow> int) \<Rightarrow> build_state \<Rightarrow> SurveyPoint \<Rightarrow> build_state" where
  "process_point clock s point =
     (let fi = frontImage point (clock (ticks s));
          ri = rearImage point (clock (ticks s + 1))
      in \<lparr>b_images = map_set (image_id ri) ri (map_set (image_id fi) fi (b_images s)),
          frontImages = frontImages s @ [fi],
          rearImages = rearImages s @ [ri],
          ticks = ticks s + 2\<rparr>)"

definition build_images :: "(nat \<Rightarrow> int) \<Rightarrow> SurveyPoint list \<Rightarrow> build_state" where
  "build_images clock ps =
     foldl (process_point clock)
       \<lparr>b_images = [], frontImages = [], rearImages = [], ticks = 0\<rparr> ps"

text \<open>
  The second loop: each image is pushed on the bucket of its cell, and the bucket is
  created first when the cell is new. (After the creation the bucket is always found.)
\<close>

definition add_to_cell ::
  "(LatLng \<Rightarrow> string) \<Rightarrow> (string, ImageEntity list) js_map \<Rightarrow> ImageEntity
    \<Rightarrow> (string, ImageEntity list) js_map" where
  "add_to_cell lngLatToCellId cs img =
     (let cellId = lngLatToCellId \<lparr>geo_lat = geo_lat (computed_geometry img),
                                    geo_lng = geo_lng (computed_geometry img)\<rparr>;
          cs1 = (if \<not> map_has cs cellId then map_set cellId [] cs else cs)
      in case map_get cs1 cellId of
           Some bucket \<Rightarrow> map_set cellId (bucket @ [img]) cs1
         | None \<Rightarrow> cs1)"

definition processSurveyData ::
  "(LatLng \<Rightarrow> string) \<Rightarrow> (nat \<Rightarrow> int) \<Rightarrow> SurveyPoint list \<Rightarrow> provider" where
  "processSurveyData lngLatToCellId clock ps =
     (let s = build_images clock ps;
          seqs = map_set ''seq_rear''
                   \<lparr>seq_id = ''seq_rear'', image_ids = map image_id (rearImages s)\<rparr>
                   (map_set ''seq_front''
                      \<lparr>seq_id = ''seq_front'', image_ids = map image_id (frontImages s)\<rparr> []);
          allImages = frontImages s @ rearImages s
      in \<lparr>surveyData = ps,
          images = b_images s,
          sequences = seqs,
          cells = foldl (add_to_cell lngLatToCellId) [] allImages\<rparr>)"

text \<open>The constructor: empty maps, then \<open>_processSurveyData\<close>.\<close>

definition CustomDataProvider ::
  "(LatLng \<Rightarrow> string) \<Rightarrow> (nat \<Rightarrow> int) \<Rightarrow> SurveyPoint list \<Rightarrow> provider" where
  "CustomDataProvider lngLatToCellId clock ps = processSurveyData lngLatToCellId clock ps"

subsection \<open>Queries\<close>

record core_images =
  cell_id :: string
  cell_images :: "ImageEntity list"

definition getCoreImages :: "provider \<Rightarrow> string \<Rightarrow> core_images promise" where
  "getCoreImages prov cellId =
     (let imgs = (if map_has (cells prov) cellId
                  then (case map_get (cells prov) cellId of Some b \<Rightarrow> b | None \<Rightarrow> [])
                  else [])
      in Fulfilled \<lparr>cell_id = cellId, cell_images = imgs\<rparr>)"

text \<open>An entry of the id query: \<open>node = None\<close> is the \<open>null\<close> of the source.\<close>

record image_result =
  node :: "ImageEntity option"
  node_id :: string

definition getImages :: "provider \<Rightarrow> string list \<Rightarrow> image_result list promise" where
  "getImages prov imageIds =
     Fulfilled (map (\<lambda>i. \<lparr>node = (if map_has (images prov) i then map_get (images prov) i
                                   else None),
                          node_id = i\<rparr>) imageIds)"

definition getSpatialImages :: "provider \<Rightarrow> string list \<Rightarrow> image_result list promise" where
  "getSpatialImages prov imageIds = getImages prov imageIds"

definition getSequence :: "provider \<Rightarrow> string \<Rightarrow> Sequence promise" where
  "getSequence prov sequenceId =
     (if map_has (sequences prov) sequenceId
      then (case map_get (sequences prov) sequenceId of
              Some s \<Rightarrow> Fulfilled s
            | None \<Rightarrow> Rejected (Error (''Sequence '' @ sequenceId @ '' not found'')))
      else Rejected (Error (''Sequence '' @ sequenceId @ '' not found'')))"

text \<open>
  The byte fetch. The network is a parameter: \<open>net u\<close> is what \<open>fetch(u)\<close> settles to, a
  rejection for a transport error and a response otherwise; \<open>body\<close> is what
  \<open>response.arrayBuffer()\<close> settles to. The effects of a call are returned with its result.
\<close>

type_synonym bytes = "nat list"

record response =
  ok :: bool
  status :: int
  body :: "bytes promise"

datatype effect =
    ConsoleLog string
  | Fetch string
  | ConsoleError string js_error

fun is_fetch :: "effect \<Rightarrow> bool" where
  "is_fetch (Fetch u) = True"
| "is_fetch (ConsoleLog m) = False"
| "is_fetch (ConsoleError m e) = False"

definition getImageBuffer ::
  "(string \<Rightarrow> response promise) \<Rightarrow> string \<Rightarrow> effect list \<times> bytes promise" where
  "getImageBuffer net u =
     (let fetched = (case net u of
                       Rejected e \<Rightarrow> Rejected e
                     | Fulfilled resp \<Rightarrow>
                         if \<not> ok resp then Rejected (Error (''Failed to load image: '' @ u))
                         else body resp)
      in case fetched of
           Rejected e \<Rightarrow>
             ([ConsoleLog (''getImageBuffer called for '' @ u), Fetch u,
               ConsoleError (''Error loading image '' @ u @ '':'') e], Rejected e)
         | Fulfilled b \<Rightarrow>
             ([ConsoleLog (''getImageBuffer called for '' @ u), Fetch u], Fulfilled b))"

text \<open>\<open>String.prototype.includes\<close>: the second string occurs in the first.\<close>

fun js_includes :: "string \<Rightarrow> string \<Rightarrow> bool" where
  "js_includes [] sub = (sub = [])"
| "js_includes (c # cs) sub = (take (length sub) (c # cs) = sub \<or> js_includes cs sub)"

text \<open>
  The arrays and the id map that the first loop leaves behind, written as recursions over
  the dataset: the entities of the point at position i carry the clock readings 2i and
  2i+1.
\<close>

fun fronts_from :: "(nat \<Rightarrow> int) \<Rightarrow> nat \<Rightarrow> SurveyPoint list \<Rightarrow> ImageEntity list" where
  "fronts_from clock k [] = []"
| "fronts_from clock k (p # ps) = frontImage p (clock k) # fronts_from clock (k + 2) ps"

fun rears_from :: "(nat \<Rightarrow> int) \<Rightarrow> nat \<Rightarrow> SurveyPoint list \<Rightarrow> ImageEntity list" where
  "rears_from clock k [] = []"
| "rears_from clock k (p # ps) = rearImage p (clock (k + 1)) # rears_from clock (k + 2) ps"

fun entries_from ::
  "(nat \<Rightarrow> int) \<Rightarrow> nat \<Rightarrow> SurveyPoint list \<Rightarrow> (string \<times> ImageEntity) list" where
  "entries_from clock k [] = []"
| "entries_from clock k (p # ps) =
     (front_id p, frontImage p (clock k)) # (rear_id p, rearImage p (clock (k + 1)))
       # entries_from clock (k + 2) ps"

section \<open>The loader (app.js, loadCSVData)\<close>

text \<open>
  The CSV parser runs with dynamic typing: a field of a row is a number, a string, a
  boolean, or missing. Truthiness is that of JavaScript.
\<close>

datatype jsval = JUndefined | JNull | JBool bool | JNum real | JNaN | JStr string

fun truthy :: "jsval \<Rightarrow> bool" where
  "truthy JUndefined = False"
| "truthy JNull = False"
| "truthy (JBool b) = b"
| "truthy (JNum x) = (x \<noteq> 0)"
| "truthy JNaN = False"
| "truthy (JStr s) = (s \<noteq> [])"

record csv_row =
  row_id :: jsval
  row_lat :: jsval
  row_long :: jsval
  row_heading_front :: jsval
  row_front :: jsval
  row_rear :: jsval

text \<open>
  The two front ends: the one that drives the panoramic viewer through the data provider,
  and the one that shows a flat image element.
\<close>

datatype variant = GraphViewer | FlatImage

text \<open>The filter predicate of the loader (a row is an object, hence truthy itself).\<close>

fun valid_row :: "variant \<Rightarrow> csv_row \<Rightarrow> bool" where
  "valid_row GraphViewer row =
     (truthy (row_id row) \<and> truthy (row_lat row) \<and> truthy (row_long row) \<and>
      truthy (row_heading_front row))"
| "valid_row FlatImage row =
     (truthy (row_id row) \<and> truthy (row_lat row) \<and> truthy (row_long row) \<and>
      truthy (row_heading_front row) \<and> truthy (row_front row) \<and> truthy (row_rear row))"

text \<open>
  \<open>Array.prototype.sort\<close> with the comparator \<open>String(a.id).localeCompare(String(b.id))\<close>.
  The comparison of two ids is a parameter (number rendering and collation belong to the
  runtime); the sort is stable.
\<close>

fun insert_row :: "(jsval \<Rightarrow> jsval \<Rightarrow> int) \<Rightarrow> csv_row \<Rightarrow> csv_row list \<Rightarrow> csv_row list" where
  "insert_row cmp x [] = [x]"
| "insert_row cmp x (y # ys) =
     (if cmp (row_id x) (row_id y) \<le> 0 then x # y # ys else y # insert_row cmp x ys)"

definition sort_rows :: "(jsval \<Rightarrow> jsval \<Rightarrow> int) \<Rightarrow> csv_row list \<Rightarrow> csv_row list" where
  "sort_rows cmp rows = foldr (insert_row cmp) rows []"

datatype papa_outcome = PapaError string | PapaComplete "csv_row list option"

definition loadCSVData ::
  "variant \<Rightarrow> (jsval \<Rightarrow> jsval \<Rightarrow> int) \<Rightarrow> papa_outcome \<Rightarrow> csv_row list promise" where
  "loadCSVData v cmp outcome =
     (case outcome of
        PapaError msg \<Rightarrow> Rejected (Error (''CSV error: '' @ msg))
      | PapaComplete None \<Rightarrow> Rejected (Error ''No data in CSV'')
      | PapaComplete (Some rows) \<Rightarrow>
          if length rows > 0 then
            (let validData = filter (valid_row v) rows
             in if length validData = 0 then Rejected (Error ''No valid data in CSV'')
                else Fulfilled (sort_rows cmp validData))
          else Rejected (Error ''No data in CSV''))"

section \<open>The navigation controller (app.js)\<close>

subsection \<open>State, commands to the displays\<close>

text \<open>
  The globals of the application that navigation reads and writes. \<open>pendingInit\<close> counts
  the callbacks that \<open>setTimeout\<close> has scheduled and that have not run yet.
\<close>

record app_state =
  currentPointIndex :: int
  isShowingFront :: bool
  isViewerMode :: bool
  viewerInitialized :: bool
  pendingInit :: nat

definition initial_state :: app_state where
  "initial_state =
     \<lparr>currentPointIndex = 0, isShowingFront = True, isViewerMode = False,
      viewerInitialized = False, pendingInit = 0\<rparr>"

record info_panel =
  position :: int
  total :: int
  view_label :: string
  heading :: int
  prev_disabled :: bool
  next_disabled :: bool

datatype marker_style = Emphasized | Default_style

datatype command =
    ViewerCreate string
  | ViewerMoveTo string
  | ViewerSetZoom int
  | ViewerSetCenter real real
  | SetImageSrc string
  | SetTitleInfo info_panel
  | MinimapSetView real real int
  | MinimapClearMarkers
  | MinimapAddMarker real real
  | RestyleMarkers "marker_style list"
  | MapSetView real real
  | MapZoomIn
  | MapZoomOut
  | ContainerActive bool

text \<open>\<open>surveyData[i]\<close>: undefined outside the array.\<close>

definition point_at :: "SurveyPoint list \<Rightarrow> int \<Rightarrow> SurveyPoint option" where
  "point_at ps i = (if 0 \<le> i \<and> i < int (length ps) then Some (ps ! nat i) else None)"

definition undefined_point :: js_error where
  "undefined_point = TypeError ''Cannot read properties of undefined''"

definition undefined_viewer :: js_error where
  "undefined_viewer = TypeError ''Cannot read properties of undefined (reading moveTo)''"

text \<open>
  A handler calls its refresh routines one after the other; the first that throws ends
  the handler, and the commands issued before stay issued.
\<close>

fun run_seq :: "(js_error + command list) list \<Rightarrow> command list \<times> js_error option" where
  "run_seq [] = ([], None)"
| "run_seq (Inl e # rest) = ([], Some e)"
| "run_seq (Inr cs # rest) = (cs @ fst (run_seq rest), snd (run_seq rest))"

subsection \<open>Refresh routines\<close>

definition view_name :: "app_state \<Rightarrow> string" where
  "view_name st = (if isShowingFront st then ''front'' else ''rear'')"

text \<open>The image id \<open>`point${surveyData[currentPointIndex].id}_${view}`\<close>.\<close>

definition currentImageId :: "SurveyPoint list \<Rightarrow> app_state \<Rightarrow> js_error + string" where
  "currentImageId ps st =
     (case point_at ps (currentPointIndex st) of
        None \<Rightarrow> Inl undefined_point
      | Some point \<Rightarrow> Inr (''point'' @ pid point @ ''_'' @ view_name st))"

definition viewerMoveTo :: "SurveyPoint list \<Rightarrow> app_state \<Rightarrow> js_error + command list" where
  "viewerMoveTo ps st =
     (case currentImageId ps st of
        Inl e \<Rightarrow> Inl e
      | Inr imageId \<Rightarrow>
          if viewerInitialized st then Inr [ViewerMoveTo imageId] else Inl undefined_viewer)"

definition updateImage :: "SurveyPoint list \<Rightarrow> app_state \<Rightarrow> js_error + command list" where
  "updateImage ps st =
     (case point_at ps (currentPointIndex st) of
        None \<Rightarrow> Inl undefined_point
      | Some point \<Rightarrow>
          Inr [SetImageSrc (''./images/'' @ (if isShowingFront st then front point else rear point))])"

text \<open>The imagery refresh of a handler: \<open>viewer.moveTo\<close> or \<open>updateImage\<close>.\<close>

fun showImage :: "variant \<Rightarrow> SurveyPoint list \<Rightarrow> app_state \<Rightarrow> js_error + command list" where
  "showImage GraphViewer ps st = viewerMoveTo ps st"
| "showImage FlatImage ps st = updateImage ps st"

definition updateViewerInfo :: "SurveyPoint list \<Rightarrow> app_state \<Rightarrow> js_error + command list" where
  "updateViewerInfo ps st =
     (case point_at ps (currentPointIndex st) of
        None \<Rightarrow> Inl undefined_point
      | Some point \<Rightarrow>
          Inr [SetTitleInfo
                \<lparr>position = currentPointIndex st + 1,
                 total = int (length ps),
                 view_label = (if isShowingFront st then ''Front'' else ''Rear''),
                 heading = (if isShowingFront st then heading_front point
                            else js_rem (heading_front point + 180) 360),
                 prev_disabled = (currentPointIndex st = 0),
                 next_disabled = (currentPointIndex st = int (length ps) - 1)\<rparr>])"

definition updateMinimap :: "SurveyPoint list \<Rightarrow> app_state \<Rightarrow> js_error + command list" where
  "updateMinimap ps st =
     (case point_at ps (currentPointIndex st) of
        None \<Rightarrow> Inl undefined_point
      | Some point \<Rightarrow>
          Inr [MinimapSetView (lat point) (long point) 15, MinimapClearMarkers,
               MinimapAddMarker (lat point) (long point)])"

text \<open>There is one map marker per survey point; \<open>highlightMarker\<close> restyles all of them.\<close>

definition highlightMarker :: "SurveyPoint list \<Rightarrow> int \<Rightarrow> js_error + command list" where
  "highlightMarker ps index =
     Inr [RestyleMarkers
            (map (\<lambda>i. if int i = index then Emphasized else Default_style) [0..<length ps])]"

subsection \<open>Handlers\<close>

type_synonym outcome = "app_state \<times> command list \<times> js_error option"

definition prev_click :: "variant \<Rightarrow> SurveyPoint list \<Rightarrow> app_state \<Rightarrow> outcome" where
  "prev_click v ps st =
     (if currentPointIndex st > 0 then
        (let st1 = st\<lparr>currentPointIndex := currentPointIndex st - 1\<rparr>
         in (st1, run_seq [showImage v ps st1, updateViewerInfo ps st1, updateMinimap ps st1,
                           highlightMarker ps (currentPointIndex st1)]))
      else (st, [], None))"

definition next_click :: "variant \<Rightarrow> SurveyPoint list \<Rightarrow> app_state \<Rightarrow> outcome" where
  "next_click v ps st =
     (if currentPointIndex st < int (length ps) - 1 then
        (let st1 = st\<lparr>currentPointIndex := currentPointIndex st + 1\<rparr>
         in (st1, run_seq [showImage v ps st1, updateViewerInfo ps st1, updateMinimap ps st1,
                           highlightMarker ps (currentPointIndex st1)]))
      else (st, [], None))"

definition switch_view_click :: "variant \<Rightarrow> SurveyPoint list \<Rightarrow> app_state \<Rightarrow> outcome" where
  "switch_view_click v ps st =
     (let st1 = st\<lparr>isShowingFront := \<not> isShowingFront st\<rparr>
      in (st1, run_seq [showImage v ps st1, updateViewerInfo ps st1]))"

fun enterViewerMode :: "variant \<Rightarrow> SurveyPoint list \<Rightarrow> app_state \<Rightarrow> outcome" where
  "enterViewerMode GraphViewer ps st =
     (let st1 = st\<lparr>isViewerMode := True\<rparr>
      in if \<not> viewerInitialized st1
         then (st1\<lparr>pendingInit := pendingInit st1 + 1\<rparr>, [ContainerActive True], None)
         else (st1, run_seq [Inr [ContainerActive True], viewerMoveTo ps st1,
                             updateViewerInfo ps st1, updateMinimap ps st1,
                             highlightMarker ps (currentPointIndex st1)]))"
| "enterViewerMode FlatImage ps st =
     (let st1 = st\<lparr>isViewerMode := True\<rparr>
      in (st1, run_seq [Inr [ContainerActive True], updateImage ps st1,
                        updateViewerInfo ps st1, updateMinimap ps st1,
                        highlightMarker ps (currentPointIndex st1)]))"

definition marker_click :: "variant \<Rightarrow> SurveyPoint list \<Rightarrow> nat \<Rightarrow> app_state \<Rightarrow> outcome" where
  "marker_click v ps index st =
     enterViewerMode v ps (st\<lparr>currentPointIndex := int index, isShowingFront := True\<rparr>)"

definition exitViewerMode :: "SurveyPoint list \<Rightarrow> app_state \<Rightarrow> outcome" where
  "exitViewerMode ps st =
     (let st1 = st\<lparr>isViewerMode := False\<rparr>
      in (st1, run_seq [Inr [ContainerActive False],
                        (case point_at ps (currentPointIndex st1) of
                           None \<Rightarrow> Inl undefined_point
                         | Some point \<Rightarrow> Inr [MapSetView (lat point) (long point)]),
                        highlightMarker ps (currentPointIndex st1)]))"

text \<open>
  \<open>initViewer\<close>: creates the viewer on the front image of the current point, once.
\<close>

definition initViewer :: "SurveyPoint list \<Rightarrow> app_state \<Rightarrow> outcome" where
  "initViewer ps st =
     (if viewerInitialized st then (st, [], None)
      else case point_at ps (currentPointIndex st) of
             None \<Rightarrow> (st, [], Some undefined_point)
           | Some point \<Rightarrow>
               (st\<lparr>viewerInitialized := True\<rparr>,
                [ViewerCreate (''point'' @ pid point @ ''_front'')], None))"

text \<open>The callback that the first \<open>enterViewerMode\<close> defers by 100 ms.\<close>

definition init_timer_fired :: "SurveyPoint list \<Rightarrow> app_state \<Rightarrow> outcome" where
  "init_timer_fired ps st =
     (if pendingInit st = 0 then (st, [], None)
      else (let st0 = st\<lparr>pendingInit := pendingInit st - 1\<rparr>
            in case initViewer ps st0 of
                 (st1, cs, Some e) \<Rightarrow> (st1, cs, Some e)
               | (st1, cs, None) \<Rightarrow>
                   (st1, cs @ fst (run_seq [updateViewerInfo ps st1, updateMinimap ps st1,
                                             highlightMarker ps (currentPointIndex st1)]),
                    snd (run_seq [updateViewerInfo ps st1, updateMinimap ps st1,
                                  highlightMarker ps (currentPointIndex st1)]))))"

fun findIndex :: "('a \<Rightarrow> bool) \<Rightarrow> 'a list \<Rightarrow> int" where
  "findIndex P [] = - 1"
| "findIndex P (x # xs) =
     (if P x then 0 else (let r = findIndex P xs in if r = - 1 then - 1 else r + 1))"

text \<open>
  The viewer's \<open>image\<close> event. The handler is registered by \<open>initViewer\<close>; the event
  carries the image the engine has moved to (or nothing).
\<close>

definition viewer_on_image :: "SurveyPoint list \<Rightarrow> ImageEntity option \<Rightarrow> app_state \<Rightarrow> outcome" where
  "viewer_on_image ps image_opt st =
     (case image_opt of
        None \<Rightarrow> (st, [], None)
      | Some img \<Rightarrow>
          if point_id img \<noteq> [] then
            (let index = findIndex (\<lambda>p. pid p = point_id img) ps
             in if index \<noteq> - 1 then
                  (let st1 = st\<lparr>currentPointIndex := index,
                                 isShowingFront := js_includes (image_id img) ''_front''\<rparr>
                   in if isViewerMode st1 then
                        (st1, run_seq [Inr [ViewerSetZoom 0, ViewerSetCenter 0.5 0.95],
                                       updateViewerInfo ps st1, updateMinimap ps st1,
                                       highlightMarker ps (currentPointIndex st1)])
                      else (st1, [], None))
                else (st, [], None))
          else (st, [], None))"

subsection \<open>Events\<close>

datatype event =
    MarkerClick nat
  | MinimapClick
  | CloseViewerClick
  | PrevClick
  | NextClick
  | SwitchViewClick
  | ZoomInClick
  | ZoomOutClick
  | InitTimer
  | ViewerLoad
  | ViewerImage "ImageEntity option"

text \<open>
  One event, one handler. The timer and the viewer's events exist in the graph front end
  only, and the viewer's events only once the viewer has been created.
\<close>

fun step :: "variant \<Rightarrow> SurveyPoint list \<Rightarrow> event \<Rightarrow> app_state \<Rightarrow> outcome" where
  "step v ps (MarkerClick i) st = marker_click v ps i st"
| "step v ps MinimapClick st = exitViewerMode ps st"
| "step v ps CloseViewerClick st = exitViewerMode ps st"
| "step v ps PrevClick st = prev_click v ps st"
| "step v ps NextClick st = next_click v ps st"
| "step v ps SwitchViewClick st = switch_view_click v ps st"
| "step v ps ZoomInClick st = (st, [MapZoomIn], None)"
| "step v ps ZoomOutClick st = (st, [MapZoomOut], None)"
| "step GraphViewer ps InitTimer st = init_timer_fired ps st"
| "step FlatImage ps InitTimer st = (st, [], None)"
| "step GraphViewer ps ViewerLoad st =
     (if viewerInitialized st then (st, [ViewerSetZoom 0, ViewerSetCenter 0.5 0.95], None)
      else (st, [], None))"
| "step FlatImage ps ViewerLoad st = (st, [], None)"
| "step GraphViewer ps (ViewerImage image_opt) st =
     (if viewerInitialized st then viewer_on_image ps image_opt st else (st, [], None))"
| "step FlatImage ps (ViewerImage image_opt) st = (st, [], None)"

text \<open>A marker, and its click handler, exists for each position of the dataset.\<close>

fun event_ok :: "SurveyPoint list \<Rightarrow> event \<Rightarrow> bool" where
  "event_ok ps (MarkerClick i) = (i < length ps)"
| "event_ok ps e = True"

definition run :: "variant \<Rightarrow> SurveyPoint list \<Rightarrow> event list \<Rightarrow> app_state" where
  "run v ps evs = foldl (\<lambda>st e. fst (step v ps e st)) initial_state evs"

definition commands_of :: "outcome \<Rightarrow> command list" where
  "commands_of r = fst (snd r)"

definition error_of :: "outcome \<Rightarrow> js_error option" where
  "error_of r = snd (snd r)"

text \<open>The four kinds of display refresh.\<close>

fun is_imagery :: "command \<Rightarrow> bool" where
  "is_imagery (ViewerMoveTo i) = True"
| "is_imagery (ViewerCreate i) = True"
| "is_imagery (SetImageSrc u) = True"
| "is_imagery c = False"

fun is_info :: "command \<Rightarrow> bool" where
  "is_info (SetTitleInfo i) = True"
| "is_info c = False"

fun is_minimap :: "command \<Rightarrow> bool" where
  "is_minimap (MinimapSetView la lo z) = True"
| "is_minimap MinimapClearMarkers = True"
| "is_minimap (MinimapAddMarker la lo) = True"
| "is_minimap c = False"

fun is_highlight :: "command \<Rightarrow> bool" where
  "is_highlight (RestyleMarkers ms) = True"
| "is_highlight c = False"

text \<open>
  The viewer that the imagery refresh drives exists: always in the flat front end (an
  image element), in the graph front end once \<open>initViewer\<close> has run.
\<close>

fun viewer_ready :: "variant \<Rightarrow> app_state \<Rightarrow> bool" where
  "viewer_ready GraphViewer st = viewerInitialized st"
| "viewer_ready FlatImage st = True"

definition all_four_refreshes :: "command list \<Rightarrow> bool" where
  "all_four_refreshes cs =
     (list_ex is_imagery cs \<and> list_ex is_info cs \<and> list_ex is_minimap cs \<and>
      list_ex is_highlight cs)"

subsection \<open>A small dataset\<close>

text \<open>Two survey points in two different cells, with the boundary headings 0 and 359.\<close>

definition p1 :: SurveyPoint where
  "p1 = \<lparr>pid = ''1'', lat = 1, long = 2, heading_front = 0, front = ''f1.jpg'',
         rear = ''r1.jpg'', front_width = 100, front_height = 50, rear_width = 100,
         rear_height = 50\<rparr>"

definition p2 :: SurveyPoint where
  "p2 = \<lparr>pid = ''2'', lat = 20, long = 2, heading_front = 359, front = ''f2.jpg'',
         rear = ''r2.jpg'', front_width = 100, front_height = 50, rear_width = 100,
         rear_height = 50\<rparr>"

definition cell_of :: "LatLng \<Rightarrow> string" where
  "cell_of ll = (if geo_lat ll < 10 then ''A'' else ''B'')"


text \<open>
  Networks that answer every request with a given status, or not at all, and three parsed
  rows: a regular one, one heading due north, one on the equator.
\<close>

definition net_status :: "int \<Rightarrow> string \<Rightarrow> response promise" where
  "net_status code u = Fulfilled \<lparr>ok = (200 \<le> code \<and> code < 300), status = code,
                                  body = Fulfilled [1, 2, 3]\<rparr>"

definition net_down :: "string \<Rightarrow> response promise" where
  "net_down u = Rejected (TypeError ''Failed to fetch'')"

definition row_ok :: csv_row where
  "row_ok = \<lparr>row_id = JNum 2, row_lat = JNum 48.5, row_long = JNum 2.25,
             row_heading_front = JNum 90, row_front = JStr ''f2.jpg'',
             row_rear = JStr ''r2.jpg''\<rparr>"

definition row_north :: csv_row where
  "row_north = \<lparr>row_id = JNum 1, row_lat = JNum 48.5, row_long = JNum 2.25,
                row_heading_front = JNum 0, row_front = JStr ''f1.jpg'',
                row_rear = JStr ''r1.jpg''\<rparr>"

definition row_equator :: csv_row where
  "row_equator = \<lparr>row_id = JNum 3, row_lat = JNum 0, row_long = JNum 2.25,
                  row_heading_front = JNum 45, row_front = JStr ''f3.jpg'',
                  row_rear = JStr ''r3.jpg''\<rparr>"

definition cmp_ex :: "jsval \<Rightarrow> jsval \<Rightarrow> int" where
  "cmp_ex a b = 0"

section \<open>The provider: what the construction builds\<close>

lemma foldl_frontImages:
  "frontImages (foldl (process_point clock) s ps) = frontImages s @ fronts_from clock (ticks s) ps"
  by (induction ps arbitrary: s) (simp_all add: process_point_def Let_def)

lemma foldl_rearImages:
  "rearImages (foldl (process_point clock) s ps) = rearImages s @ rears_from clock (ticks s) ps"
  by (induction ps arbitrary: s) (simp_all add: process_point_def Let_def)

lemma image_id_frontImage [simp]: "image_id (frontImage p t) = front_id p"
  by (simp add: frontImage_def createImageEnt_def)

lemma image_id_rearImage [simp]: "image_id (rearImage p t) = rear_id p"
  by (simp add: rearImage_def createImageEnt_def)

lemma update_fresh: "k \<notin> fst ` set al \<Longrightarrow> AList.update k v al = al @ [(k, v)]"
  by (induction al) auto

lemma front_rear_neq: "front_id p \<noteq> rear_id q"
proof
  assume "front_id p = rear_id q"
  then have "last (pid p @ ''_front'') = last (pid q @ ''_rear'')"
    by (simp add: front_id_def rear_id_def)
  then show False by simp
qed

lemma front_id_inj: "front_id p = front_id q \<longleftrightarrow> pid p = pid q"
  by (simp add: front_id_def)

lemma rear_id_inj: "rear_id p = rear_id q \<longleftrightarrow> pid p = pid q"
  by (simp add: rear_id_def)

lemma fst_entries_from:
  "fst ` set (entries_from clock k ps) = front_id ` set ps \<union> rear_id ` set ps"
  by (induction ps arbitrary: k) auto

lemma foldl_b_images:
  "distinct (map pid ps) \<Longrightarrow>
   \<forall>p \<in> set ps. front_id p \<notin> fst ` set (b_images s) \<and> rear_id p \<notin> fst ` set (b_images s) \<Longrightarrow>
   b_images (foldl (process_point clock) s ps) = b_images s @ entries_from clock (ticks s) ps"
proof (induction ps arbitrary: s)
  case Nil
  show ?case by simp
next
  case (Cons p ps)
  let ?s1 = "process_point clock s p"
  have f: "front_id p \<notin> fst ` set (b_images s)" and r: "rear_id p \<notin> fst ` set (b_images s)"
    using Cons.prems(2) by simp_all
  have r': "rear_id p \<notin> fst ` set (b_images s @ [(front_id p, frontImage p (clock (ticks s)))])"
    using r front_rear_neq [of p p] by auto
  have b1: "b_images ?s1 = b_images s @ [(front_id p, frontImage p (clock (ticks s))),
                                         (rear_id p, rearImage p (clock (ticks s + 1)))]"
    using r' by (simp add: process_point_def Let_def map_set_def update_fresh [OF f] update_fresh)
  have t1: "ticks ?s1 = ticks s + 2"
    by (simp add: process_point_def Let_def)
  have fresh: "\<forall>q \<in> set ps. front_id q \<notin> fst ` set (b_images ?s1) \<and>
                               rear_id q \<notin> fst ` set (b_images ?s1)"
  proof
    fix q assume q: "q \<in> set ps"
    then have ne: "pid q \<noteq> pid p" using Cons.prems(1) by (metis distinct.simps(2) image_eqI list.simps(9) set_map)
    have "front_id q \<notin> fst ` set (b_images s)" "rear_id q \<notin> fst ` set (b_images s)"
      using Cons.prems(2) q by simp_all
    then show "front_id q \<notin> fst ` set (b_images ?s1) \<and> rear_id q \<notin> fst ` set (b_images ?s1)"
      using ne front_rear_neq [of q p] front_rear_neq [of p q]
      by (auto simp: b1 front_id_inj rear_id_inj)
  qed
  have "b_images (foldl (process_point clock) ?s1 ps) =
          b_images ?s1 @ entries_from clock (ticks ?s1) ps"
    using Cons.IH [of ?s1] Cons.prems(1) fresh by simp
  then show ?case by (simp add: b1 t1)
qed

lemma snd_entries_from:
  "set (map snd (entries_from clock k ps)) =
     set (fronts_from clock k ps) \<union> set (rears_from clock k ps)"
  by (induction ps arbitrary: k) auto

lemma mset_snd_entries_from:
  "mset (map snd (entries_from clock k ps)) = mset (fronts_from clock k ps @ rears_from clock k ps)"
  by (induction ps arbitrary: k) simp_all

lemma ids_fronts_from [simp]: "map image_id (fronts_from clock k ps) = map front_id ps"
  by (induction ps arbitrary: k) simp_all

lemma ids_rears_from [simp]: "map image_id (rears_from clock k ps) = map rear_id ps"
  by (induction ps arbitrary: k) simp_all

lemma distinct_all_images:
  assumes "distinct (map pid ps)"
  shows "distinct (fronts_from clock k ps @ rears_from clock k ps)"
proof -
  have "distinct (map front_id ps)"
    using assms by (simp add: distinct_map inj_on_def front_id_inj)
  moreover have "distinct (map rear_id ps)"
    using assms by (simp add: distinct_map inj_on_def rear_id_inj)
  moreover have "set (map front_id ps) \<inter> set (map rear_id ps) = {}"
    using front_rear_neq by auto
  ultimately have "distinct (map image_id (fronts_from clock k ps @ rears_from clock k ps))"
    by simp
  then show ?thesis using distinct_map by blast
qed

lemma sequences_built:
  "sequences (CustomDataProvider g clock ps) =
     [(''seq_front'', \<lparr>seq_id = ''seq_front'', image_ids = map front_id ps\<rparr>),
      (''seq_rear'', \<lparr>seq_id = ''seq_rear'', image_ids = map rear_id ps\<rparr>)]"
  by (simp add: CustomDataProvider_def processSurveyData_def Let_def map_set_def
      build_images_def foldl_frontImages foldl_rearImages)

lemma update_present_mset:
  "map_of cs k = Some b \<Longrightarrow>
   mset (concat (map snd (AList.update k (b @ [x]) cs))) = mset (concat (map snd cs)) + {#x#}"
  by (induction cs) (auto split: if_splits)

lemma add_to_cell_keys:
  "distinct (map fst cs) \<Longrightarrow> distinct (map fst (add_to_cell g cs img))"
  by (simp add: add_to_cell_def Let_def map_set_def map_get_def map_has_def
      distinct_update split: option.splits)

lemma add_to_cell_mset:
  "mset (concat (map snd (add_to_cell g cs img))) = mset (concat (map snd cs)) + {#img#}"
proof -
  let ?c = "g \<lparr>geo_lat = geo_lat (computed_geometry img), geo_lng = geo_lng (computed_geometry img)\<rparr>"
  show ?thesis
  proof (cases "map_of cs ?c")
    case None
    then have k: "?c \<notin> fst ` set cs" by (simp add: map_of_eq_None_iff)
    have "AList.update ?c [] cs = cs @ [(?c, [])]" by (rule update_fresh [OF k])
    moreover have "map_of (cs @ [(?c, [])]) ?c = Some []" using None by (simp add: map_add_def)
    ultimately show ?thesis
      using None update_present_mset [of "cs @ [(?c, [])]" ?c "[]" img]
      by (simp add: add_to_cell_def Let_def map_set_def map_get_def map_has_def)
  next
    case (Some b)
    then show ?thesis
      using update_present_mset [of cs ?c b img]
      by (simp add: add_to_cell_def Let_def map_set_def map_get_def map_has_def)
  qed
qed

lemma foldl_cells_keys:
  "distinct (map fst cs) \<Longrightarrow> distinct (map fst (foldl (add_to_cell g) cs imgs))"
  by (induction imgs arbitrary: cs) (simp_all add: add_to_cell_keys)

lemma foldl_cells_mset:
  "mset (concat (map snd (foldl (add_to_cell g) cs imgs))) = mset (concat (map snd cs)) + mset imgs"
  by (induction imgs arbitrary: cs) (simp_all add: add_to_cell_mset)

lemma unique_bucket:
  "distinct (concat (map snd cs)) \<Longrightarrow> map_of cs c1 = Some b1 \<Longrightarrow> map_of cs c2 = Some b2 \<Longrightarrow>
   x \<in> set b1 \<Longrightarrow> x \<in> set b2 \<Longrightarrow> c1 = c2"
proof (induction cs)
  case Nil
  then show ?case by simp
next
  case (Cons e cs)
  obtain k b where e: "e = (k, b)" by (cases e)
  have in_rest: "\<And>c b'. map_of cs c = Some b' \<Longrightarrow> set b' \<subseteq> set (concat (map snd cs))"
    by (auto dest!: map_of_SomeD)
  show ?case
  proof (cases "c1 = k")
    case c1: True
    show ?thesis
    proof (cases "c2 = k")
      case True
      with c1 show ?thesis by simp
    next
      case False
      then have "map_of cs c2 = Some b2" using Cons.prems(3) e by simp
      then have "x \<in> set (concat (map snd cs))" using in_rest Cons.prems(5) by blast
      moreover have "x \<in> set b" using Cons.prems(2,4) c1 e by simp
      ultimately show ?thesis using Cons.prems(1) e by auto
    qed
  next
    case n1: False
    then have m1: "map_of cs c1 = Some b1" using Cons.prems(2) e by simp
    show ?thesis
    proof (cases "c2 = k")
      case True
      have "x \<in> set (concat (map snd cs))" using in_rest m1 Cons.prems(4) by blast
      moreover have "x \<in> set b" using Cons.prems(3,5) True e by simp
      ultimately show ?thesis using Cons.prems(1) e by auto
    next
      case False
      then have "map_of cs c2 = Some b2" using Cons.prems(3) e by simp
      then show ?thesis using Cons.IH m1 Cons.prems(1,4,5) e by simp
    qed
  qed
qed


lemma images_built:
  "distinct (map pid ps) \<Longrightarrow>
   images (CustomDataProvider g clock ps) = entries_from clock 0 ps"
  using foldl_b_images [of ps "\<lparr>b_images = [], frontImages = [], rearImages = [], ticks = 0\<rparr>" clock]
  by (simp add: CustomDataProvider_def processSurveyData_def Let_def build_images_def)

lemma cells_built_mset:
  "mset (concat (map snd (cells (CustomDataProvider g clock ps)))) =
     mset (fronts_from clock 0 ps @ rears_from clock 0 ps)"
  by (simp add: CustomDataProvider_def processSurveyData_def Let_def build_images_def
      foldl_cells_mset foldl_frontImages foldl_rearImages)

lemma cells_built_keys: "distinct (map fst (cells (CustomDataProvider g clock ps)))"
  by (simp add: CustomDataProvider_def processSurveyData_def Let_def foldl_cells_keys)

lemma length_entries_from: "length (entries_from clock k ps) = 2 * length ps"
  by (induction ps arbitrary: k) simp_all

lemma getCoreImages_unindexed:
  "\<not> map_has (cells prov) c \<Longrightarrow> getCoreImages prov c = Fulfilled \<lparr>cell_id = c, cell_images = []\<rparr>"
  by (simp add: getCoreImages_def)

lemma getCoreImages_total: "\<exists>r. getCoreImages prov c = Fulfilled r"
  by (simp add: getCoreImages_def Let_def)


section \<open>Claims about the provider\<close>

text \<open>
  C2. For every dataset, the sequence returned for \<open>seq_front\<close> lists exactly the ids
  \<open>point{id}_front\<close> in dataset order, the sequence returned for \<open>seq_rear\<close> lists exactly
  the ids \<open>point{id}_rear\<close> in dataset order, and each has the length of the dataset.
\<close>

theorem sequence_order:
  "getSequence (CustomDataProvider g clock ps) ''seq_front'' =
     Fulfilled \<lparr>seq_id = ''seq_front'',
                image_ids = map (\<lambda>p. ''point'' @ pid p @ ''_front'') ps\<rparr> \<and>
   getSequence (CustomDataProvider g clock ps) ''seq_rear'' =
     Fulfilled \<lparr>seq_id = ''seq_rear'',
                image_ids = map (\<lambda>p. ''point'' @ pid p @ ''_rear'') ps\<rparr> \<and>
   length (map (\<lambda>p. ''point'' @ pid p @ ''_front'') ps) = length ps \<and>
   length (map (\<lambda>p. ''point'' @ pid p @ ''_rear'') ps) = length ps"
proof -
  have f: "map front_id ps = map (\<lambda>p. ''point'' @ pid p @ ''_front'') ps"
    by (simp add: front_id_def)
  have r: "map rear_id ps = map (\<lambda>p. ''point'' @ pid p @ ''_rear'') ps"
    by (simp add: rear_id_def)
  show ?thesis
    by (simp add: getSequence_def sequences_built map_has_def map_get_def f r)
qed

lemma process_point_images:
  "map_of (b_images (process_point clock s p)) =
     (map_of (b_images s))(front_id p \<mapsto> frontImage p (clock (ticks s)),
                          rear_id p \<mapsto> rearImage p (clock (ticks s + 1)))"
  by (simp add: process_point_def Let_def map_set_def update_conv')

lemma foldl_images_dom:
  "dom (map_of (b_images (foldl (process_point clock) s ps))) =
     dom (map_of (b_images s)) \<union> front_id ` set ps \<union> rear_id ` set ps"
  by (induction ps arbitrary: s) (auto simp: process_point_images)

lemma foldl_images_entity:
  "\<forall>k e. map_of (b_images s) k = Some e \<longrightarrow>
           image_id e = k \<and> e \<in> set (frontImages s @ rearImages s) \<Longrightarrow>
   map_of (b_images (foldl (process_point clock) s ps)) k = Some e \<Longrightarrow>
   image_id e = k \<and>
   e \<in> set (frontImages (foldl (process_point clock) s ps) @
             rearImages (foldl (process_point clock) s ps))"
proof (induction ps arbitrary: s)
  case Nil
  then show ?case by simp
next
  case (Cons p ps)
  let ?s1 = "process_point clock s p"
  have inv: "\<forall>k e. map_of (b_images ?s1) k = Some e \<longrightarrow>
               image_id e = k \<and> e \<in> set (frontImages ?s1 @ rearImages ?s1)"
  proof (intro allI impI)
    fix k e assume m: "map_of (b_images ?s1) k = Some e"
    have fr: "frontImages ?s1 = frontImages s @ [frontImage p (clock (ticks s))]"
      and rr: "rearImages ?s1 = rearImages s @ [rearImage p (clock (ticks s + 1))]"
      by (simp_all add: process_point_def Let_def)
    show "image_id e = k \<and> e \<in> set (frontImages ?s1 @ rearImages ?s1)"
    proof (cases "k = rear_id p")
      case True
      then have "e = rearImage p (clock (ticks s + 1))"
        using m by (simp add: process_point_images)
      then show ?thesis using True by (simp add: rr)
    next
      case nr: False
      show ?thesis
      proof (cases "k = front_id p")
        case True
        then have "e = frontImage p (clock (ticks s))"
          using m nr by (simp add: process_point_images)
        then show ?thesis using True by (simp add: fr)
      next
        case False
        then have "map_of (b_images s) k = Some e"
          using m nr by (simp add: process_point_images)
        then have "image_id e = k \<and> e \<in> set (frontImages s @ rearImages s)"
          using Cons.prems(1) by blast
        then show ?thesis by (auto simp: fr rr)
      qed
    qed
  qed
  show ?case
    using Cons.IH [OF inv] Cons.prems(2) by simp
qed

lemma images_dom:
  "dom (map_of (images (CustomDataProvider g clock ps))) =
     front_id ` set ps \<union> rear_id ` set ps"
  using foldl_images_dom [of clock "\<lparr>b_images = [], frontImages = [], rearImages = [], ticks = 0\<rparr>" ps]
  by (simp add: CustomDataProvider_def processSurveyData_def Let_def build_images_def)

lemma images_entity:
  assumes "map_of (images (CustomDataProvider g clock ps)) k = Some e"
  shows "image_id e = k \<and>
         e \<in> set (frontImages (build_images clock ps) @ rearImages (build_images clock ps))"
proof -
  let ?start = "\<lparr>b_images = [], frontImages = [], rearImages = [], ticks = 0\<rparr>"
  have i: "\<forall>k e. map_of (b_images ?start) k = Some e \<longrightarrow>
             image_id e = k \<and> e \<in> set (frontImages ?start @ rearImages ?start)"
    by simp
  have m: "map_of (b_images (foldl (process_point clock) ?start ps)) k = Some e"
    using assms
    by (simp add: CustomDataProvider_def processSurveyData_def Let_def build_images_def)
  show ?thesis
    using foldl_images_entity [OF i m] by (simp add: build_images_def)
qed

lemma entries_front_lookup:
  "distinct (map pid ps) \<Longrightarrow> j < length ps \<Longrightarrow>
   map_of (entries_from clock k ps) (front_id (ps ! j)) =
     Some (frontImage (ps ! j) (clock (k + 2 * j)))"
proof (induction ps arbitrary: k j)
  case Nil
  then show ?case by simp
next
  case (Cons p ps)
  show ?case
  proof (cases j)
    case 0
    then show ?thesis by simp
  next
    case (Suc j')
    then have j': "j' < length ps" using Cons.prems(2) by simp
    then have "pid (ps ! j') \<noteq> pid p"
      using Cons.prems(1) by (metis distinct.simps(2) list.simps(9) nth_map nth_mem length_map)
    then have "front_id (ps ! j') \<noteq> front_id p" "front_id (ps ! j') \<noteq> rear_id p"
      using front_rear_neq by (simp_all add: front_id_inj)
    then show ?thesis
      using Cons.IH [of j' "k + 2"] Cons.prems(1) j' Suc by (simp add: add.commute add.left_commute)
  qed
qed

lemma entries_rear_lookup:
  "distinct (map pid ps) \<Longrightarrow> j < length ps \<Longrightarrow>
   map_of (entries_from clock k ps) (rear_id (ps ! j)) =
     Some (rearImage (ps ! j) (clock (k + 2 * j + 1)))"
proof (induction ps arbitrary: k j)
  case Nil
  then show ?case by simp
next
  case (Cons p ps)
  show ?case
  proof (cases j)
    case 0
    then show ?thesis using front_rear_neq [of p p] by simp
  next
    case (Suc j')
    then have j': "j' < length ps" using Cons.prems(2) by simp
    then have "pid (ps ! j') \<noteq> pid p"
      using Cons.prems(1) by (metis distinct.simps(2) list.simps(9) nth_map nth_mem length_map)
    then have "rear_id (ps ! j') \<noteq> rear_id p" "rear_id (ps ! j') \<noteq> front_id p"
      using front_rear_neq [of p "ps ! j'"] by (simp_all add: rear_id_inj)
    then show ?thesis
      using Cons.IH [of j' "k + 2"] Cons.prems(1) j' Suc by (simp add: add.commute add.left_commute)
  qed
qed

lemma getImages_nodes:
  "getImages prov ids =
     Fulfilled (map (\<lambda>i. \<lparr>node = map_of (images prov) i, node_id = i\<rparr>) ids)"
proof -
  have "(if map_has (images prov) i then map_get (images prov) i else None) =
          map_of (images prov) i" for i
    by (simp add: map_has_def map_get_def)
  then show ?thesis by (simp add: getImages_def)
qed

text \<open>
  C3. The id query of a constructed provider never fails; its result has the length and
  the order of the request and each position carries the requested id. An id that is
  neither a front id nor a rear id of the dataset resolves to the absent marker (\<open>None\<close>,
  the \<open>null\<close> of the source); a front or rear id of the dataset resolves to a created
  entity that carries this id. With the ids of the survey points unique, the front id of
  the point at position j resolves to the front entity created for that point, and its
  rear id to its rear entity.
\<close>

theorem getImages_positional:
  "\<exists>rs. getImages (CustomDataProvider g clock ps) ids = Fulfilled rs \<and>
        length rs = length ids \<and>
        map node_id rs = ids \<and>
        (\<forall>k < length ids.
           (ids ! k \<notin> front_id ` set ps \<union> rear_id ` set ps \<longrightarrow> node (rs ! k) = None) \<and>
           (ids ! k \<in> front_id ` set ps \<union> rear_id ` set ps \<longrightarrow>
              (\<exists>e. node (rs ! k) = Some e \<and> image_id e = ids ! k \<and>
                   e \<in> set (frontImages (build_images clock ps) @
                             rearImages (build_images clock ps))))) \<and>
        (distinct (map pid ps) \<longrightarrow>
           (\<forall>k < length ids. \<forall>j < length ps.
              (ids ! k = front_id (ps ! j) \<longrightarrow>
                 node (rs ! k) = Some (frontImage (ps ! j) (clock (2 * j)))) \<and>
              (ids ! k = rear_id (ps ! j) \<longrightarrow>
                 node (rs ! k) = Some (rearImage (ps ! j) (clock (2 * j + 1))))))"
proof -
  let ?P = "CustomDataProvider g clock ps"
  let ?rs = "map (\<lambda>i. \<lparr>node = map_of (images ?P) i, node_id = i\<rparr>) ids"
  have r: "getImages ?P ids = Fulfilled ?rs" by (rule getImages_nodes)
  have n: "node (?rs ! k) = map_of (images ?P) (ids ! k)" if "k < length ids" for k
    using that by simp
  have 1: "length ?rs = length ids" by simp
  have 2: "map node_id ?rs = ids" by (simp add: o_def)
  have 3: "node (?rs ! k) = None"
    if "k < length ids" "ids ! k \<notin> front_id ` set ps \<union> rear_id ` set ps" for k
  proof -
    have "ids ! k \<notin> dom (map_of (images ?P))" using that(2) by (simp add: images_dom)
    then show ?thesis using n [OF that(1)] by (simp add: domIff)
  qed
  have 4: "\<exists>e. node (?rs ! k) = Some e \<and> image_id e = ids ! k \<and>
                e \<in> set (frontImages (build_images clock ps) @ rearImages (build_images clock ps))"
    if "k < length ids" "ids ! k \<in> front_id ` set ps \<union> rear_id ` set ps" for k
  proof -
    have "ids ! k \<in> dom (map_of (images ?P))" using that(2) by (simp add: images_dom)
    then obtain e where e: "map_of (images ?P) (ids ! k) = Some e" by blast
    show ?thesis using images_entity [OF e] e n [OF that(1)] by simp
  qed
  have 5: "node (?rs ! k) = Some (frontImage (ps ! j) (clock (2 * j)))"
    if "distinct (map pid ps)" "k < length ids" "j < length ps" "ids ! k = front_id (ps ! j)"
    for k j
    using entries_front_lookup [OF that(1,3), of clock 0] n [OF that(2)] that(4)
    by (simp add: images_built [OF that(1)])
  have 6: "node (?rs ! k) = Some (rearImage (ps ! j) (clock (2 * j + 1)))"
    if "distinct (map pid ps)" "k < length ids" "j < length ps" "ids ! k = rear_id (ps ! j)"
    for k j
    using entries_rear_lookup [OF that(1,3), of clock 0] n [OF that(2)] that(4)
    by (simp add: images_built [OF that(1)])
  have A: "\<forall>k < length ids.
           (ids ! k \<notin> front_id ` set ps \<union> rear_id ` set ps \<longrightarrow> node (?rs ! k) = None) \<and>
           (ids ! k \<in> front_id ` set ps \<union> rear_id ` set ps \<longrightarrow>
              (\<exists>e. node (?rs ! k) = Some e \<and> image_id e = ids ! k \<and>
                   e \<in> set (frontImages (build_images clock ps) @
                             rearImages (build_images clock ps))))"
    using 3 4 by blast
  have B: "distinct (map pid ps) \<longrightarrow>
           (\<forall>k < length ids. \<forall>j < length ps.
              (ids ! k = front_id (ps ! j) \<longrightarrow>
                 node (?rs ! k) = Some (frontImage (ps ! j) (clock (2 * j)))) \<and>
              (ids ! k = rear_id (ps ! j) \<longrightarrow>
                 node (?rs ! k) = Some (rearImage (ps ! j) (clock (2 * j + 1)))))"
    using 5 6 by blast
  show ?thesis
    by (rule exI [of _ ?rs]) (intro conjI r 1 2 A B)
qed

theorem getImages_positional_witness:
  "distinct (map pid [p1, p2]) \<and>
   ''point2_rear'' = rear_id ([p1, p2] ! 1) \<and>
   ''point1_front'' = front_id ([p1, p2] ! 0) \<and>
   ''point9_front'' \<notin> front_id ` set [p1, p2] \<union> rear_id ` set [p1, p2] \<and>
   (\<exists>rs. getImages (CustomDataProvider cell_of int [p1, p2])
            [''point2_rear'', ''point9_front'', ''point1_front''] = Fulfilled rs \<and>
         length rs = 3 \<and>
         map node_id rs = [''point2_rear'', ''point9_front'', ''point1_front''] \<and>
         node (rs ! 0) = Some (rearImage p2 3) \<and>
         node (rs ! 1) = None \<and>
         node (rs ! 2) = Some (frontImage p1 0))"
proof -
  let ?ids = "[''point2_rear'', ''point9_front'', ''point1_front'']"
  have d: "distinct (map pid [p1, p2])" by (simp add: p1_def p2_def)
  have a: "''point2_rear'' = rear_id ([p1, p2] ! 1)" by (simp add: rear_id_def p2_def)
  have b: "''point1_front'' = front_id ([p1, p2] ! 0)" by (simp add: front_id_def p1_def)
  have c: "''point9_front'' \<notin> front_id ` set [p1, p2] \<union> rear_id ` set [p1, p2]"
    by (simp add: front_id_def rear_id_def p1_def p2_def)
  from getImages_positional [of cell_of int "[p1, p2]" ?ids]
  obtain rs where rs: "getImages (CustomDataProvider cell_of int [p1, p2]) ?ids = Fulfilled rs"
      "length rs = length ?ids" "map node_id rs = ?ids"
    and un: "\<forall>k < length ?ids.
               (?ids ! k \<notin> front_id ` set [p1, p2] \<union> rear_id ` set [p1, p2] \<longrightarrow>
                  node (rs ! k) = None) \<and>
               (?ids ! k \<in> front_id ` set [p1, p2] \<union> rear_id ` set [p1, p2] \<longrightarrow>
                  (\<exists>e. node (rs ! k) = Some e \<and> image_id e = ?ids ! k \<and>
                       e \<in> set (frontImages (build_images int [p1, p2]) @
                                 rearImages (build_images int [p1, p2]))))"
    and ex: "distinct (map pid [p1, p2]) \<longrightarrow>
           (\<forall>k < length ?ids. \<forall>j < length [p1, p2].
              (?ids ! k = front_id ([p1, p2] ! j) \<longrightarrow>
                 node (rs ! k) = Some (frontImage ([p1, p2] ! j) (int (2 * j)))) \<and>
              (?ids ! k = rear_id ([p1, p2] ! j) \<longrightarrow>
                 node (rs ! k) = Some (rearImage ([p1, p2] ! j) (int (2 * j + 1)))))"
    by (elim exE conjE)
  have un1: "?ids ! 1 \<notin> front_id ` set [p1, p2] \<union> rear_id ` set [p1, p2] \<longrightarrow>
               node (rs ! 1) = None"
    using un by (simp del: set_simps Un_iff image_iff)
  have ex': "\<forall>k < length ?ids. \<forall>j < length [p1, p2].
              (?ids ! k = front_id ([p1, p2] ! j) \<longrightarrow>
                 node (rs ! k) = Some (frontImage ([p1, p2] ! j) (int (2 * j)))) \<and>
              (?ids ! k = rear_id ([p1, p2] ! j) \<longrightarrow>
                 node (rs ! k) = Some (rearImage ([p1, p2] ! j) (int (2 * j + 1))))"
    using ex d by (rule mp)
  have n0: "node (rs ! 0) = Some (rearImage p2 3)"
    using ex' [rule_format, of 0 1] a by simp
  have n1: "node (rs ! 1) = None"
    using un1 c by simp
  have n2: "node (rs ! 2) = Some (frontImage p1 0)"
    using ex' [rule_format, of 2 0] b by simp
  have l: "length rs = 3" using rs(2) by simp
  show ?thesis
    by (intro conjI exI [of _ rs] d a b c rs(1) rs(3) l n0 n1 n2)
qed

lemma partition_unique_ids:
  assumes d: "distinct (map pid ps)"
  shows "let prov = CustomDataProvider g clock ps in
           length (map_values (images prov)) = 2 * length ps \<and>
           distinct (map_values (images prov)) \<and>
           distinct (map fst (cells prov)) \<and>
           distinct (concat (map_values (cells prov))) \<and>
           set (concat (map_values (cells prov))) = set (map_values (images prov)) \<and>
           (\<forall>img \<in> set (map_values (images prov)).
              \<exists>!c. \<exists>b. map_get (cells prov) c = Some b \<and> img \<in> set b)"
proof -
  let ?P = "CustomDataProvider g clock ps"
  let ?all = "fronts_from clock 0 ps @ rears_from clock 0 ps"
  have im: "images ?P = entries_from clock 0 ps" by (rule images_built [OF d])
  have dall: "distinct ?all" by (rule distinct_all_images [OF d])
  have ms: "mset (concat (map snd (cells ?P))) = mset ?all" by (rule cells_built_mset)
  have vals: "set (map_values (images ?P)) = set ?all"
    by (simp add: im map_values_def snd_entries_from del: set_map)
  have c1: "length (map_values (images ?P)) = 2 * length ps"
    by (simp add: map_values_def im length_entries_from)
  have c2: "distinct (map_values (images ?P))"
    using dall mset_eq_imp_distinct_iff [OF mset_snd_entries_from [of clock 0 ps]]
    by (simp add: map_values_def im)
  have c3: "distinct (map fst (cells ?P))" by (rule cells_built_keys)
  have c4: "distinct (concat (map_values (cells ?P)))"
    using dall mset_eq_imp_distinct_iff [OF ms] by (simp add: map_values_def)
  have c5: "set (concat (map_values (cells ?P))) = set (map_values (images ?P))"
    using mset_eq_setD [OF ms] vals by (simp only: map_values_def)
  have c6: "\<forall>img \<in> set (map_values (images ?P)).
              \<exists>!c. \<exists>b. map_get (cells ?P) c = Some b \<and> img \<in> set b"
  proof
    fix img assume "img \<in> set (map_values (images ?P))"
    then have "img \<in> set (concat (map snd (cells ?P)))"
      using c5 by (simp only: map_values_def)
    then obtain c b where cb: "(c, b) \<in> set (cells ?P)" and ib: "img \<in> set b"
      by auto
    have "map_of (cells ?P) c = Some b"
      using c3 cb by simp
    then have ex: "\<exists>b. map_get (cells ?P) c = Some b \<and> img \<in> set b"
      using ib by (simp add: map_get_def)
    show "\<exists>!c. \<exists>b. map_get (cells ?P) c = Some b \<and> img \<in> set b"
    proof (rule ex1I [of _ c])
      show "\<exists>b. map_get (cells ?P) c = Some b \<and> img \<in> set b" by (rule ex)
    next
      fix c' assume "\<exists>b. map_get (cells ?P) c' = Some b \<and> img \<in> set b"
      then obtain b' where "map_of (cells ?P) c' = Some b'" "img \<in> set b'"
        by (auto simp: map_get_def)
      then show "c' = c"
        using unique_bucket [of "cells ?P" c' b' c b img] c4 \<open>map_of (cells ?P) c = Some b\<close> ib
        by (simp add: map_values_def)
    qed
  qed
  show ?thesis
    unfolding Let_def using c1 c2 c3 c4 c5 c6 by blast
qed

text \<open>
  C4. The constructed provider creates two entities per survey point. The keys of the cell
  index are different, and the buckets together hold exactly the created entities, each
  as often as it was created. A cell query always succeeds, with the empty list for a
  cell that is not indexed. With the ids of the survey points unique, the id map holds
  all these entities, two per point and all different, no entity occurs twice in or
  across buckets, the buckets together hold exactly the entities of the id map, and each
  of them is in exactly one bucket.
\<close>

theorem spatial_partition:
  "let prov = CustomDataProvider g clock ps;
       created = frontImages (build_images clock ps) @ rearImages (build_images clock ps)
   in length created = 2 * length ps \<and>
      distinct (map fst (cells prov)) \<and>
      mset (concat (map_values (cells prov))) = mset created \<and>
      (\<not> map_has (cells prov) c \<longrightarrow>
         getCoreImages prov c = Fulfilled \<lparr>cell_id = c, cell_images = []\<rparr>) \<and>
      (\<exists>r. getCoreImages prov c = Fulfilled r) \<and>
      (distinct (map pid ps) \<longrightarrow>
         length (map_values (images prov)) = 2 * length ps \<and>
         distinct (map_values (images prov)) \<and>
         distinct (concat (map_values (cells prov))) \<and>
         set (concat (map_values (cells prov))) = set (map_values (images prov)) \<and>
         (\<forall>img \<in> set (map_values (images prov)).
            \<exists>!c. \<exists>b. map_get (cells prov) c = Some b \<and> img \<in> set b))"
proof -
  let ?P = "CustomDataProvider g clock ps"
  let ?created = "frontImages (build_images clock ps) @ rearImages (build_images clock ps)"
  have cr: "?created = fronts_from clock 0 ps @ rears_from clock 0 ps"
    by (simp add: build_images_def foldl_frontImages foldl_rearImages)
  have "length (fronts_from clock k ps) = length ps" for k
    by (induction ps arbitrary: k) simp_all
  moreover have "length (rears_from clock k ps) = length ps" for k
    by (induction ps arbitrary: k) simp_all
  ultimately have 1: "length ?created = 2 * length ps"
    by (simp add: cr)
  have 2: "distinct (map fst (cells ?P))" by (rule cells_built_keys)
  have 3: "mset (concat (map_values (cells ?P))) = mset ?created"
    using cells_built_mset [of g clock ps] by (simp only: cr map_values_def)
  have 4: "\<not> map_has (cells ?P) c \<longrightarrow>
             getCoreImages ?P c = Fulfilled \<lparr>cell_id = c, cell_images = []\<rparr>"
    by (simp add: getCoreImages_unindexed)
  have 5: "\<exists>r. getCoreImages ?P c = Fulfilled r" by (rule getCoreImages_total)
  have 6: "length (map_values (images ?P)) = 2 * length ps \<and>
         distinct (map_values (images ?P)) \<and>
         distinct (concat (map_values (cells ?P))) \<and>
         set (concat (map_values (cells ?P))) = set (map_values (images ?P)) \<and>
         (\<forall>img \<in> set (map_values (images ?P)).
            \<exists>!c. \<exists>b. map_get (cells ?P) c = Some b \<and> img \<in> set b)"
    if "distinct (map pid ps)"
    using partition_unique_ids [OF that, of g clock] unfolding Let_def by blast
  show ?thesis
    unfolding Let_def using 1 2 3 4 5 6 by blast
qed

lemma cells_ex: "map fst (cells (CustomDataProvider cell_of int [p1, p2])) = [''A'', ''B'']"
  by (simp add: CustomDataProvider_def processSurveyData_def Let_def build_images_def
      process_point_def add_to_cell_def map_set_def map_get_def map_has_def cell_of_def
      frontImage_def rearImage_def createImageEnt_def p1_def p2_def)

theorem spatial_partition_witness:
  "distinct (map pid [p1, p2]) \<and>
   \<not> map_has (cells (CustomDataProvider cell_of int [p1, p2])) ''C'' \<and>
   getCoreImages (CustomDataProvider cell_of int [p1, p2]) ''C'' =
     Fulfilled \<lparr>cell_id = ''C'', cell_images = []\<rparr> \<and>
   length (map_values (images (CustomDataProvider cell_of int [p1, p2]))) = 2 * length [p1, p2] \<and>
   distinct (concat (map_values (cells (CustomDataProvider cell_of int [p1, p2])))) \<and>
   set (concat (map_values (cells (CustomDataProvider cell_of int [p1, p2])))) =
     set (map_values (images (CustomDataProvider cell_of int [p1, p2])))"
proof -
  have h: "distinct (map pid [p1, p2])" by (simp add: p1_def p2_def)
  have n: "\<not> map_has (cells (CustomDataProvider cell_of int [p1, p2])) ''C''"
  proof -
    have "fst ` set (cells (CustomDataProvider cell_of int [p1, p2])) = set [''A'', ''B'']"
      using cells_ex by (metis set_map)
    then show ?thesis by (simp add: map_has_def map_of_eq_None_iff)
  qed
  show ?thesis
    using h n spatial_partition [of cell_of int "[p1, p2]" "''C''"] unfolding Let_def
    by blast
qed

text \<open>
  C8. The sequence query of a constructed provider is rejected exactly when the id is
  neither \<open>seq_front\<close> nor \<open>seq_rear\<close>; for these two ids it succeeds with the sequence.
\<close>

theorem getSequence_not_found:
  "((\<exists>e. getSequence (CustomDataProvider g clock ps) sid = Rejected e) \<longleftrightarrow>
      (sid \<noteq> ''seq_front'' \<and> sid \<noteq> ''seq_rear'')) \<and>
   getSequence (CustomDataProvider g clock ps) sid =
     (if sid = ''seq_front''
      then Fulfilled \<lparr>seq_id = ''seq_front'', image_ids = map front_id ps\<rparr>
      else if sid = ''seq_rear''
      then Fulfilled \<lparr>seq_id = ''seq_rear'', image_ids = map rear_id ps\<rparr>
      else Rejected (Error (''Sequence '' @ sid @ '' not found'')))"
  by (simp add: getSequence_def sequences_built map_has_def map_get_def)

section \<open>Claims about headings\<close>

lemma js_rem_nonneg: "0 \<le> a \<Longrightarrow> js_rem a 360 = a mod 360"
  by (simp add: js_rem_def)

lemma rotation_rears_from:
  "\<forall>p \<in> set ps. - 180 \<le> heading_front p \<Longrightarrow>
   map computed_rotation (rears_from clock k ps) =
     map (\<lambda>p. [pi / 2, 0, of_int ((heading_front p + 180) mod 360) * pi / 180]) ps"
  by (induction ps arbitrary: k)
     (simp_all add: rearImage_def createImageEnt_def rearHeadingRad_def rearHeadingDeg_def
        js_rem_nonneg)

lemma point_at_valid: "i < length ps \<Longrightarrow> point_at ps (int i) = Some (ps ! i)"
  by (simp add: point_at_def)

text \<open>
  The scenario of the specification: headings 90, 180 and 270 have the rear headings 270,
  0 and 90. Below -180 the remainder of JavaScript is negative and is not the modulus.
\<close>

lemma rear_heading_scenario:
  "map (\<lambda>h. js_rem (h + 180) 360) [90, 180, 270] = [270, 0, 90]"
  by (simp add: js_rem_def)

lemma rear_heading_below_range:
  "js_rem (- 200 + 180) 360 = - 20 \<and> (- 200 + 180) mod 360 = (340 :: int)"
  by (simp add: js_rem_def)

text \<open>
  C1. For every survey point of a dataset whose headings are at least -180 (the data model
  has them in 0..360), the rear entity that the provider creates for the point has the
  rotation \<open>[\<pi>/2, 0, d\<cdot>\<pi>/180]\<close> with \<open>d = (heading_front + 180) mod 360\<close>, and the info
  panel, when the rear side of the point is shown, displays the same \<open>d\<close> as heading.
\<close>

theorem rear_heading:
  assumes "\<forall>p \<in> set ps. - 180 \<le> heading_front p"
  shows "map computed_rotation (rearImages (build_images clock ps)) =
           map (\<lambda>p. [pi / 2, 0, of_int ((heading_front p + 180) mod 360) * pi / 180]) ps \<and>
         (i < length ps \<and> currentPointIndex st = int i \<and> \<not> isShowingFront st \<longrightarrow>
            (\<exists>info. updateViewerInfo ps st = Inr [SetTitleInfo info] \<and>
                    heading info = (heading_front (ps ! i) + 180) mod 360))"
proof -
  have a: "map computed_rotation (rearImages (build_images clock ps)) =
           map (\<lambda>p. [pi / 2, 0, of_int ((heading_front p + 180) mod 360) * pi / 180]) ps"
    using rotation_rears_from [OF assms, of clock 0]
    by (simp add: build_images_def foldl_rearImages)
  have b: "\<exists>info. updateViewerInfo ps st = Inr [SetTitleInfo info] \<and>
                    heading info = (heading_front (ps ! i) + 180) mod 360"
    if "i < length ps" "currentPointIndex st = int i" "\<not> isShowingFront st"
  proof -
    have "- 180 \<le> heading_front (ps ! i)" using assms that(1) by simp
    then show ?thesis
      using that by (simp add: updateViewerInfo_def point_at_valid js_rem_nonneg)
  qed
  show ?thesis using a b by blast
qed

theorem rear_heading_witness:
  "- 180 \<le> heading_front p1 \<and> - 180 \<le> heading_front p2 \<and>
   heading_front p1 = 0 \<and> heading_front p2 = 359 \<and>
   map computed_rotation (rearImages (build_images int [p1, p2])) =
     [[pi / 2, 0, 180 * pi / 180], [pi / 2, 0, 179 * pi / 180]] \<and>
   (\<exists>info. updateViewerInfo [p1, p2]
             (initial_state\<lparr>currentPointIndex := 1, isShowingFront := False\<rparr>) =
             Inr [SetTitleInfo info] \<and>
           heading info = 179)"
proof -
  have h: "\<forall>p \<in> set [p1, p2]. - 180 \<le> heading_front p" by (simp add: p1_def p2_def)
  show ?thesis
    using h rear_heading [OF h, of int 1
        "initial_state\<lparr>currentPointIndex := 1, isShowingFront := False\<rparr>"]
    by (simp add: p1_def p2_def initial_state_def)
qed

section \<open>Claims about navigation\<close>

lemma findIndex_range:
  "findIndex P xs \<noteq> - 1 \<Longrightarrow> 0 \<le> findIndex P xs \<and> findIndex P xs < int (length xs)"
  by (induction xs) (auto simp: Let_def split: if_splits)

lemma findIndex_lower: "- 1 \<le> findIndex P xs"
  by (induction xs) (auto simp: Let_def)

lemma fst_initViewer_index:
  "currentPointIndex (fst (initViewer ps st)) = currentPointIndex st"
  by (simp add: initViewer_def split: option.splits)

lemma fst_init_timer_index:
  "currentPointIndex (fst (init_timer_fired ps st)) = currentPointIndex st"
proof (cases "pendingInit st = 0")
  case True
  then show ?thesis by (simp add: init_timer_fired_def)
next
  case False
  let ?st0 = "st\<lparr>pendingInit := pendingInit st - 1\<rparr>"
  obtain s1 cs r where iv: "initViewer ps ?st0 = (s1, cs, r)" by (cases "initViewer ps ?st0")
  have "currentPointIndex s1 = currentPointIndex ?st0"
    using fst_initViewer_index [of ps ?st0] iv by simp
  then show ?thesis
    using False iv by (cases r) (simp_all add: init_timer_fired_def Let_def)
qed

lemma fst_enterViewerMode_index:
  "currentPointIndex (fst (enterViewerMode v ps st)) = currentPointIndex st"
  by (cases v) (simp_all add: Let_def)

lemma step_keeps_index_valid:
  assumes "0 \<le> currentPointIndex st" "currentPointIndex st < int (length ps)" "event_ok ps e"
  shows "0 \<le> currentPointIndex (fst (step v ps e st)) \<and>
         currentPointIndex (fst (step v ps e st)) < int (length ps)"
proof (cases e)
  case (MarkerClick i)
  then show ?thesis using assms by (simp add: marker_click_def fst_enterViewerMode_index)
next
  case MinimapClick
  then show ?thesis using assms by (simp add: exitViewerMode_def Let_def)
next
  case CloseViewerClick
  then show ?thesis using assms by (simp add: exitViewerMode_def Let_def)
next
  case PrevClick
  then show ?thesis using assms by (auto simp: prev_click_def Let_def)
next
  case NextClick
  then show ?thesis using assms by (auto simp: next_click_def Let_def)
next
  case SwitchViewClick
  then show ?thesis using assms by (simp add: switch_view_click_def Let_def)
next
  case ZoomInClick
  then show ?thesis using assms by simp
next
  case ZoomOutClick
  then show ?thesis using assms by simp
next
  case InitTimer
  then show ?thesis using assms by (cases v) (simp_all add: fst_init_timer_index)
next
  case ViewerLoad
  then show ?thesis using assms by (cases v) simp_all
next
  case (ViewerImage io)
  show ?thesis
  proof (cases v)
    case FlatImage
    then show ?thesis using assms ViewerImage by simp
  next
    case GraphViewer
    show ?thesis
    proof (cases io)
      case None
      then show ?thesis using assms ViewerImage GraphViewer by (simp add: viewer_on_image_def)
    next
      case (Some img)
      have "findIndex (\<lambda>p. pid p = point_id img) ps \<noteq> - 1 \<Longrightarrow>
            0 \<le> findIndex (\<lambda>p. pid p = point_id img) ps \<and>
            findIndex (\<lambda>p. pid p = point_id img) ps < int (length ps)"
        by (rule findIndex_range)
      then show ?thesis
        using assms ViewerImage GraphViewer Some
        by (simp add: viewer_on_image_def Let_def)
    qed
  qed
qed

lemma foldl_keeps_index_valid:
  "0 \<le> currentPointIndex st \<Longrightarrow> currentPointIndex st < int (length ps) \<Longrightarrow>
   list_all (event_ok ps) evs \<Longrightarrow>
   0 \<le> currentPointIndex (foldl (\<lambda>st e. fst (step v ps e st)) st evs) \<and>
   currentPointIndex (foldl (\<lambda>st e. fst (step v ps e st)) st evs) < int (length ps)"
proof (induction evs arbitrary: st)
  case Nil
  then show ?case by simp
next
  case (Cons e evs)
  have "0 \<le> currentPointIndex (fst (step v ps e st)) \<and>
        currentPointIndex (fst (step v ps e st)) < int (length ps)"
    using step_keeps_index_valid [of st ps e v] Cons.prems by simp
  then show ?case using Cons.IH [of "fst (step v ps e st)"] Cons.prems(3) by simp
qed

text \<open>
  C5. In every state that the controller reaches from its initial state over a non-empty
  dataset, by any sequence of events, the current index is a position of the dataset;
  the previous-point handler at index 0 and the next-point handler at the last index
  return the state unchanged, issue no command and raise no error.
\<close>

theorem index_in_range:
  assumes "ps \<noteq> []" "list_all (event_ok ps) evs"
  shows "0 \<le> currentPointIndex (run v ps evs) \<and>
         currentPointIndex (run v ps evs) < int (length ps) \<and>
         (currentPointIndex st = 0 \<longrightarrow> prev_click v ps st = (st, [], None)) \<and>
         (currentPointIndex st = int (length ps) - 1 \<longrightarrow> next_click v ps st = (st, [], None))"
proof -
  have "0 \<le> currentPointIndex initial_state" "currentPointIndex initial_state < int (length ps)"
    using assms(1) by (simp_all add: initial_state_def)
  then have "0 \<le> currentPointIndex (run v ps evs) \<and>
             currentPointIndex (run v ps evs) < int (length ps)"
    unfolding run_def using assms(2) by (rule foldl_keeps_index_valid)
  moreover have "currentPointIndex st = 0 \<longrightarrow> prev_click v ps st = (st, [], None)"
    by (simp add: prev_click_def)
  moreover have "currentPointIndex st = int (length ps) - 1 \<longrightarrow>
                 next_click v ps st = (st, [], None)"
    by (simp add: next_click_def)
  ultimately show ?thesis by blast
qed


lemmas handler_defs =
  run_def initial_state_def marker_click_def exitViewerMode_def prev_click_def next_click_def
  switch_view_click_def init_timer_fired_def initViewer_def viewer_on_image_def
  viewerMoveTo_def updateImage_def updateViewerInfo_def updateMinimap_def highlightMarker_def
  currentImageId_def view_name_def point_at_def Let_def

theorem index_in_range_witness:
  "[p1, p2] \<noteq> [] \<and>
   list_all (event_ok [p1, p2]) [MarkerClick 1, InitTimer, SwitchViewClick, PrevClick, PrevClick] \<and>
   currentPointIndex (run GraphViewer [p1, p2]
      [MarkerClick 1, InitTimer, SwitchViewClick, PrevClick, PrevClick]) = 0 \<and>
   prev_click GraphViewer [p1, p2]
     (run GraphViewer [p1, p2] [MarkerClick 1, InitTimer, SwitchViewClick, PrevClick, PrevClick]) =
     (run GraphViewer [p1, p2] [MarkerClick 1, InitTimer, SwitchViewClick, PrevClick, PrevClick],
      [], None) \<and>
   currentPointIndex (run FlatImage [p1, p2] [MarkerClick 0, NextClick, NextClick]) = 1 \<and>
   next_click FlatImage [p1, p2] (run FlatImage [p1, p2] [MarkerClick 0, NextClick, NextClick]) =
     (run FlatImage [p1, p2] [MarkerClick 0, NextClick, NextClick], [], None)"
proof -
  let ?e1 = "[MarkerClick 1, InitTimer, SwitchViewClick, PrevClick, PrevClick]"
  let ?e2 = "[MarkerClick 0, NextClick, NextClick]"
  have n: "[p1, p2] \<noteq> []" by simp
  have a1: "list_all (event_ok [p1, p2]) ?e1" by simp
  have a2: "list_all (event_ok [p1, p2]) ?e2" by simp
  have i1: "currentPointIndex (run GraphViewer [p1, p2] ?e1) = 0"
    by (simp add: handler_defs)
  have i2: "currentPointIndex (run FlatImage [p1, p2] ?e2) = 1"
    by (simp add: handler_defs)
  show ?thesis
    using n a1 i1 i2
      index_in_range [OF n a1, of GraphViewer "run GraphViewer [p1, p2] ?e1"]
      index_in_range [OF n a2, of FlatImage "run FlatImage [p1, p2] ?e2"]
    by simp
qed

lemma showImage_valid:
  assumes "0 \<le> currentPointIndex s" "currentPointIndex s < int (length ps)"
    "v = GraphViewer \<longrightarrow> viewerInitialized s"
  shows "\<exists>c. showImage v ps s = Inr [c] \<and> is_imagery c"
  using assms
  by (cases v) (simp_all add: viewerMoveTo_def updateImage_def currentImageId_def point_at_def)

lemma updateViewerInfo_valid:
  assumes "0 \<le> currentPointIndex s" "currentPointIndex s < int (length ps)"
  shows "\<exists>i. updateViewerInfo ps s = Inr [SetTitleInfo i]"
  using assms by (simp add: updateViewerInfo_def point_at_def)

lemma updateMinimap_valid:
  assumes "0 \<le> currentPointIndex s" "currentPointIndex s < int (length ps)"
  shows "\<exists>la lo. updateMinimap ps s =
           Inr [MinimapSetView la lo 15, MinimapClearMarkers, MinimapAddMarker la lo]"
  using assms by (simp add: updateMinimap_def point_at_def)

lemma four_refreshes:
  assumes "0 \<le> currentPointIndex s" "currentPointIndex s < int (length ps)"
    "v = GraphViewer \<longrightarrow> viewerInitialized s"
  shows "snd (run_seq [showImage v ps s, updateViewerInfo ps s, updateMinimap ps s,
                       highlightMarker ps (currentPointIndex s)]) = None \<and>
         all_four_refreshes (fst (run_seq [showImage v ps s, updateViewerInfo ps s,
                       updateMinimap ps s, highlightMarker ps (currentPointIndex s)]))"
proof -
  obtain c where c: "showImage v ps s = Inr [c]" "is_imagery c"
    using showImage_valid [OF assms] by blast
  obtain i where i: "updateViewerInfo ps s = Inr [SetTitleInfo i]"
    using updateViewerInfo_valid [OF assms(1,2)] by blast
  obtain la lo where m: "updateMinimap ps s =
      Inr [MinimapSetView la lo 15, MinimapClearMarkers, MinimapAddMarker la lo]"
    using updateMinimap_valid [OF assms(1,2)] by blast
  show ?thesis
    using c(2) by (simp add: c(1) i m highlightMarker_def all_four_refreshes_def)
qed

lemma entry_refreshes:
  assumes "0 \<le> currentPointIndex s" "currentPointIndex s < int (length ps)"
    "v = GraphViewer \<longrightarrow> viewerInitialized s"
  shows "snd (run_seq [Inr [ContainerActive True], showImage v ps s, updateViewerInfo ps s,
                       updateMinimap ps s, highlightMarker ps (currentPointIndex s)]) = None \<and>
         all_four_refreshes (fst (run_seq [Inr [ContainerActive True], showImage v ps s,
                       updateViewerInfo ps s, updateMinimap ps s,
                       highlightMarker ps (currentPointIndex s)]))"
  using four_refreshes [OF assms] by (simp add: all_four_refreshes_def)

lemma two_refreshes:
  assumes "0 \<le> currentPointIndex s" "currentPointIndex s < int (length ps)"
    "v = GraphViewer \<longrightarrow> viewerInitialized s"
  shows "snd (run_seq [showImage v ps s, updateViewerInfo ps s]) = None \<and>
         list_ex is_imagery (fst (run_seq [showImage v ps s, updateViewerInfo ps s])) \<and>
         list_ex is_info (fst (run_seq [showImage v ps s, updateViewerInfo ps s])) \<and>
         \<not> list_ex is_minimap (fst (run_seq [showImage v ps s, updateViewerInfo ps s])) \<and>
         \<not> list_ex is_highlight (fst (run_seq [showImage v ps s, updateViewerInfo ps s]))"
proof -
  obtain c where c: "showImage v ps s = Inr [c]" "is_imagery c"
    using showImage_valid [OF assms] by blast
  obtain i where i: "updateViewerInfo ps s = Inr [SetTitleInfo i]"
    using updateViewerInfo_valid [OF assms(1,2)] by blast
  have "\<not> is_minimap c" "\<not> is_highlight c"
    using c(2) by (cases c; simp)+
  then show ?thesis
    using c(2) by (simp add: c(1) i)
qed

lemma viewer_ready_iff: "viewer_ready v s \<longleftrightarrow> (v = GraphViewer \<longrightarrow> viewerInitialized s)"
  by (cases v) simp_all

lemma three_refreshes:
  assumes "0 \<le> currentPointIndex s" "currentPointIndex s < int (length ps)"
  shows "snd (run_seq [updateViewerInfo ps s, updateMinimap ps s,
                       highlightMarker ps (currentPointIndex s)]) = None \<and>
         list_ex is_info (fst (run_seq [updateViewerInfo ps s, updateMinimap ps s,
                       highlightMarker ps (currentPointIndex s)])) \<and>
         list_ex is_minimap (fst (run_seq [updateViewerInfo ps s, updateMinimap ps s,
                       highlightMarker ps (currentPointIndex s)])) \<and>
         list_ex is_highlight (fst (run_seq [updateViewerInfo ps s, updateMinimap ps s,
                       highlightMarker ps (currentPointIndex s)])) \<and>
         \<not> list_ex is_imagery (fst (run_seq [updateViewerInfo ps s, updateMinimap ps s,
                       highlightMarker ps (currentPointIndex s)]))"
proof -
  obtain i where i: "updateViewerInfo ps s = Inr [SetTitleInfo i]"
    using updateViewerInfo_valid [OF assms] by blast
  obtain la lo where m: "updateMinimap ps s =
      Inr [MinimapSetView la lo 15, MinimapClearMarkers, MinimapAddMarker la lo]"
    using updateMinimap_valid [OF assms] by blast
  show ?thesis
    by (simp add: i m highlightMarker_def)
qed

lemma prev_click_refreshes:
  assumes "0 \<le> currentPointIndex st" "currentPointIndex st < int (length ps)"
    "viewer_ready v st" "0 < currentPointIndex st"
  shows "fst (prev_click v ps st) = st\<lparr>currentPointIndex := currentPointIndex st - 1\<rparr> \<and>
        snd (prev_click v ps st) =
          run_seq [showImage v ps (fst (prev_click v ps st)),
                   updateViewerInfo ps (fst (prev_click v ps st)),
                   updateMinimap ps (fst (prev_click v ps st)),
                   highlightMarker ps (currentPointIndex (fst (prev_click v ps st)))] \<and>
        error_of (prev_click v ps st) = None \<and>
        all_four_refreshes (commands_of (prev_click v ps st))"
proof -
  let ?s = "st\<lparr>currentPointIndex := currentPointIndex st - 1\<rparr>"
  have e: "prev_click v ps st =
             (?s, run_seq [showImage v ps ?s, updateViewerInfo ps ?s, updateMinimap ps ?s,
                           highlightMarker ps (currentPointIndex ?s)])"
    using assms(4) by (simp add: prev_click_def Let_def)
  have "0 \<le> currentPointIndex ?s" "currentPointIndex ?s < int (length ps)"
    "v = GraphViewer \<longrightarrow> viewerInitialized ?s"
    using assms by (simp_all add: viewer_ready_iff)
  from four_refreshes [OF this] show ?thesis
    by (simp add: e commands_of_def error_of_def)
qed

lemma next_click_refreshes:
  assumes "0 \<le> currentPointIndex st" "currentPointIndex st < int (length ps)"
    "viewer_ready v st" "currentPointIndex st < int (length ps) - 1"
  shows "fst (next_click v ps st) = st\<lparr>currentPointIndex := currentPointIndex st + 1\<rparr> \<and>
        snd (next_click v ps st) =
          run_seq [showImage v ps (fst (next_click v ps st)),
                   updateViewerInfo ps (fst (next_click v ps st)),
                   updateMinimap ps (fst (next_click v ps st)),
                   highlightMarker ps (currentPointIndex (fst (next_click v ps st)))] \<and>
        error_of (next_click v ps st) = None \<and>
        all_four_refreshes (commands_of (next_click v ps st))"
proof -
  let ?s = "st\<lparr>currentPointIndex := currentPointIndex st + 1\<rparr>"
  have e: "next_click v ps st =
             (?s, run_seq [showImage v ps ?s, updateViewerInfo ps ?s, updateMinimap ps ?s,
                           highlightMarker ps (currentPointIndex ?s)])"
    using assms(4) by (simp add: next_click_def Let_def)
  have "0 \<le> currentPointIndex ?s" "currentPointIndex ?s < int (length ps)"
    "v = GraphViewer \<longrightarrow> viewerInitialized ?s"
    using assms by (simp_all add: viewer_ready_iff)
  from four_refreshes [OF this] show ?thesis
    by (simp add: e commands_of_def error_of_def)
qed

lemma marker_click_refreshes:
  assumes "viewer_ready v st" "i < length ps"
  shows "fst (marker_click v ps i st) =
          st\<lparr>currentPointIndex := int i, isShowingFront := True, isViewerMode := True\<rparr> \<and>
        snd (marker_click v ps i st) =
          run_seq [Inr [ContainerActive True],
                   showImage v ps (fst (marker_click v ps i st)),
                   updateViewerInfo ps (fst (marker_click v ps i st)),
                   updateMinimap ps (fst (marker_click v ps i st)),
                   highlightMarker ps (currentPointIndex (fst (marker_click v ps i st)))] \<and>
        error_of (marker_click v ps i st) = None \<and>
        all_four_refreshes (commands_of (marker_click v ps i st))"
proof -
  let ?s = "st\<lparr>currentPointIndex := int i, isShowingFront := True, isViewerMode := True\<rparr>"
  have e: "marker_click v ps i st =
             (?s, run_seq [Inr [ContainerActive True], showImage v ps ?s,
                           updateViewerInfo ps ?s, updateMinimap ps ?s,
                           highlightMarker ps (currentPointIndex ?s)])"
    using assms(1) by (cases v) (simp_all add: marker_click_def Let_def)
  have "0 \<le> currentPointIndex ?s" "currentPointIndex ?s < int (length ps)"
    "v = GraphViewer \<longrightarrow> viewerInitialized ?s"
    using assms by (simp_all add: viewer_ready_iff)
  from entry_refreshes [OF this] show ?thesis
    by (simp add: e commands_of_def error_of_def)
qed

lemma marker_click_first_entry:
  assumes "\<not> viewerInitialized st"
  shows "marker_click GraphViewer ps i st =
           (st\<lparr>currentPointIndex := int i, isShowingFront := True, isViewerMode := True,
                pendingInit := pendingInit st + 1\<rparr>,
            [ContainerActive True], None)"
  using assms by (simp add: marker_click_def Let_def)

lemma init_timer_refreshes:
  assumes "0 \<le> currentPointIndex st" "currentPointIndex st < int (length ps)"
    "\<not> viewerInitialized st" "0 < pendingInit st"
  shows "fst (init_timer_fired ps st) =
           st\<lparr>pendingInit := pendingInit st - 1, viewerInitialized := True\<rparr> \<and>
         commands_of (init_timer_fired ps st) =
           ViewerCreate (''point'' @ pid (ps ! nat (currentPointIndex st)) @ ''_front'') #
           fst (run_seq [updateViewerInfo ps (fst (init_timer_fired ps st)),
                         updateMinimap ps (fst (init_timer_fired ps st)),
                         highlightMarker ps (currentPointIndex (fst (init_timer_fired ps st)))]) \<and>
         error_of (init_timer_fired ps st) = None \<and>
         all_four_refreshes (commands_of (init_timer_fired ps st))"
proof -
  let ?a = "st\<lparr>pendingInit := pendingInit st - 1\<rparr>"
  let ?s = "st\<lparr>pendingInit := pendingInit st - 1, viewerInitialized := True\<rparr>"
  let ?c = "ViewerCreate (''point'' @ pid (ps ! nat (currentPointIndex st)) @ ''_front'')"
  let ?r = "run_seq [updateViewerInfo ps ?s, updateMinimap ps ?s,
                     highlightMarker ps (currentPointIndex ?s)]"
  have iv: "initViewer ps ?a = (?s, [?c], None)"
    using assms(1-3) by (simp add: initViewer_def point_at_def)
  have e: "init_timer_fired ps st = (?s, ?c # fst ?r, snd ?r)"
    using assms(4) unfolding init_timer_fired_def Let_def iv by simp
  have "0 \<le> currentPointIndex ?s" "currentPointIndex ?s < int (length ps)"
    using assms by simp_all
  from three_refreshes [OF this] show ?thesis
    by (simp add: e commands_of_def error_of_def all_four_refreshes_def)
qed

lemma switch_view_refreshes:
  assumes "0 \<le> currentPointIndex st" "currentPointIndex st < int (length ps)"
    "viewer_ready v st"
  shows "fst (switch_view_click v ps st) = st\<lparr>isShowingFront := \<not> isShowingFront st\<rparr> \<and>
     snd (switch_view_click v ps st) =
       run_seq [showImage v ps (fst (switch_view_click v ps st)),
                updateViewerInfo ps (fst (switch_view_click v ps st))] \<and>
     error_of (switch_view_click v ps st) = None \<and>
     list_ex is_imagery (commands_of (switch_view_click v ps st)) \<and>
     list_ex is_info (commands_of (switch_view_click v ps st)) \<and>
     \<not> list_ex is_minimap (commands_of (switch_view_click v ps st)) \<and>
     \<not> list_ex is_highlight (commands_of (switch_view_click v ps st)) \<and>
     updateMinimap ps (fst (switch_view_click v ps st)) = updateMinimap ps st \<and>
     highlightMarker ps (currentPointIndex (fst (switch_view_click v ps st))) =
       highlightMarker ps (currentPointIndex st)"
proof -
  let ?t = "st\<lparr>isShowingFront := \<not> isShowingFront st\<rparr>"
  have e: "switch_view_click v ps st =
             (?t, run_seq [showImage v ps ?t, updateViewerInfo ps ?t])"
    by (simp add: switch_view_click_def Let_def)
  have "0 \<le> currentPointIndex ?t" "currentPointIndex ?t < int (length ps)"
    "v = GraphViewer \<longrightarrow> viewerInitialized ?t"
    using assms by (simp_all add: viewer_ready_iff)
  from two_refreshes [OF this] show ?thesis
    by (simp add: e commands_of_def error_of_def updateMinimap_def)
qed

lemma viewer_on_image_refreshes:
  assumes "point_id img \<noteq> []" "findIndex (\<lambda>p. pid p = point_id img) ps \<noteq> - 1"
  shows "fst (viewer_on_image ps (Some img) st) =
           st\<lparr>currentPointIndex := findIndex (\<lambda>p. pid p = point_id img) ps,
                isShowingFront := js_includes (image_id img) ''_front''\<rparr> \<and>
         error_of (viewer_on_image ps (Some img) st) = None \<and>
         \<not> list_ex is_imagery (commands_of (viewer_on_image ps (Some img) st)) \<and>
         (isViewerMode st \<longrightarrow>
            commands_of (viewer_on_image ps (Some img) st) =
              [ViewerSetZoom 0, ViewerSetCenter 0.5 0.95] @
              fst (run_seq [updateViewerInfo ps (fst (viewer_on_image ps (Some img) st)),
                            updateMinimap ps (fst (viewer_on_image ps (Some img) st)),
                            highlightMarker ps
                              (currentPointIndex (fst (viewer_on_image ps (Some img) st)))]) \<and>
            list_ex is_info (commands_of (viewer_on_image ps (Some img) st)) \<and>
            list_ex is_minimap (commands_of (viewer_on_image ps (Some img) st)) \<and>
            list_ex is_highlight (commands_of (viewer_on_image ps (Some img) st))) \<and>
         (\<not> isViewerMode st \<longrightarrow> commands_of (viewer_on_image ps (Some img) st) = [])"
proof -
  let ?s = "st\<lparr>currentPointIndex := findIndex (\<lambda>p. pid p = point_id img) ps,
                isShowingFront := js_includes (image_id img) ''_front''\<rparr>"
  let ?r = "run_seq [updateViewerInfo ps ?s, updateMinimap ps ?s,
                     highlightMarker ps (currentPointIndex ?s)]"
  have e: "viewer_on_image ps (Some img) st =
             (if isViewerMode st
              then (?s, [ViewerSetZoom 0, ViewerSetCenter 0.5 0.95] @ fst ?r, snd ?r)
              else (?s, [], None))"
    using assms by (simp add: viewer_on_image_def Let_def)
  have "0 \<le> currentPointIndex ?s" "currentPointIndex ?s < int (length ps)"
    using findIndex_range [OF assms(2)] by simp_all
  from three_refreshes [OF this] show ?thesis
    by (simp add: e commands_of_def error_of_def)
qed

text \<open>
  C6, as the code has it, for every transition that changes the index or the side, from a
  state whose index is a position of the dataset. The viewer is ready in the flat front
  end always, and in the graph front end once it has been created.
  With the viewer ready, a previous-point or next-point click that moves the index, and a
  marker click, are followed in the same handler by all four refreshes, computed from the
  new state, without error. The first marker click of the graph front end, the viewer not
  yet created, issues only the activation of the viewer container and schedules the
  deferred initialisation; that callback creates the viewer on the front image of the
  current point and issues the info-panel, minimap and marker refreshes of its state.
  With the viewer ready, a switch-view click is followed by the imagery refresh and the
  info-panel refresh of the new state only; it issues no minimap command and no marker
  restyle, and these two refreshes of the new state would equal those of the old one.
  An image reported by the engine for a point of the dataset sets index and side from the
  image and issues no imagery command (the engine shows that image already); in viewer
  mode it issues the info-panel, minimap and marker refreshes of the new state, outside
  viewer mode no command.
\<close>

theorem refreshes_after_navigation:
  assumes "0 \<le> currentPointIndex st" "currentPointIndex st < int (length ps)"
  shows
    "(viewer_ready v st \<and> 0 < currentPointIndex st \<longrightarrow>
        fst (prev_click v ps st) = st\<lparr>currentPointIndex := currentPointIndex st - 1\<rparr> \<and>
        snd (prev_click v ps st) =
          run_seq [showImage v ps (fst (prev_click v ps st)),
                   updateViewerInfo ps (fst (prev_click v ps st)),
                   updateMinimap ps (fst (prev_click v ps st)),
                   highlightMarker ps (currentPointIndex (fst (prev_click v ps st)))] \<and>
        error_of (prev_click v ps st) = None \<and>
        all_four_refreshes (commands_of (prev_click v ps st))) \<and>
     (viewer_ready v st \<and> currentPointIndex st < int (length ps) - 1 \<longrightarrow>
        fst (next_click v ps st) = st\<lparr>currentPointIndex := currentPointIndex st + 1\<rparr> \<and>
        snd (next_click v ps st) =
          run_seq [showImage v ps (fst (next_click v ps st)),
                   updateViewerInfo ps (fst (next_click v ps st)),
                   updateMinimap ps (fst (next_click v ps st)),
                   highlightMarker ps (currentPointIndex (fst (next_click v ps st)))] \<and>
        error_of (next_click v ps st) = None \<and>
        all_four_refreshes (commands_of (next_click v ps st))) \<and>
     (viewer_ready v st \<and> i < length ps \<longrightarrow>
        fst (marker_click v ps i st) =
          st\<lparr>currentPointIndex := int i, isShowingFront := True, isViewerMode := True\<rparr> \<and>
        snd (marker_click v ps i st) =
          run_seq [Inr [ContainerActive True],
                   showImage v ps (fst (marker_click v ps i st)),
                   updateViewerInfo ps (fst (marker_click v ps i st)),
                   updateMinimap ps (fst (marker_click v ps i st)),
                   highlightMarker ps (currentPointIndex (fst (marker_click v ps i st)))] \<and>
        error_of (marker_click v ps i st) = None \<and>
        all_four_refreshes (commands_of (marker_click v ps i st))) \<and>
     (\<not> viewerInitialized st \<and> i < length ps \<longrightarrow>
        marker_click GraphViewer ps i st =
          (st\<lparr>currentPointIndex := int i, isShowingFront := True, isViewerMode := True,
               pendingInit := pendingInit st + 1\<rparr>,
           [ContainerActive True], None)) \<and>
     (\<not> viewerInitialized st \<and> 0 < pendingInit st \<longrightarrow>
        fst (init_timer_fired ps st) =
          st\<lparr>pendingInit := pendingInit st - 1, viewerInitialized := True\<rparr> \<and>
        commands_of (init_timer_fired ps st) =
          ViewerCreate (''point'' @ pid (ps ! nat (currentPointIndex st)) @ ''_front'') #
          fst (run_seq [updateViewerInfo ps (fst (init_timer_fired ps st)),
                        updateMinimap ps (fst (init_timer_fired ps st)),
                        highlightMarker ps (currentPointIndex (fst (init_timer_fired ps st)))]) \<and>
        error_of (init_timer_fired ps st) = None \<and>
        all_four_refreshes (commands_of (init_timer_fired ps st))) \<and>
     (viewer_ready v st \<longrightarrow>
        fst (switch_view_click v ps st) = st\<lparr>isShowingFront := \<not> isShowingFront st\<rparr> \<and>
        snd (switch_view_click v ps st) =
          run_seq [showImage v ps (fst (switch_view_click v ps st)),
                   updateViewerInfo ps (fst (switch_view_click v ps st))] \<and>
        error_of (switch_view_click v ps st) = None \<and>
        list_ex is_imagery (commands_of (switch_view_click v ps st)) \<and>
        list_ex is_info (commands_of (switch_view_click v ps st)) \<and>
        \<not> list_ex is_minimap (commands_of (switch_view_click v ps st)) \<and>
        \<not> list_ex is_highlight (commands_of (switch_view_click v ps st)) \<and>
        updateMinimap ps (fst (switch_view_click v ps st)) = updateMinimap ps st \<and>
        highlightMarker ps (currentPointIndex (fst (switch_view_click v ps st))) =
          highlightMarker ps (currentPointIndex st)) \<and>
     (point_id img \<noteq> [] \<and> findIndex (\<lambda>p. pid p = point_id img) ps \<noteq> - 1 \<longrightarrow>
        fst (viewer_on_image ps (Some img) st) =
          st\<lparr>currentPointIndex := findIndex (\<lambda>p. pid p = point_id img) ps,
               isShowingFront := js_includes (image_id img) ''_front''\<rparr> \<and>
        error_of (viewer_on_image ps (Some img) st) = None \<and>
        \<not> list_ex is_imagery (commands_of (viewer_on_image ps (Some img) st)) \<and>
        (isViewerMode st \<longrightarrow>
           commands_of (viewer_on_image ps (Some img) st) =
             [ViewerSetZoom 0, ViewerSetCenter 0.5 0.95] @
             fst (run_seq [updateViewerInfo ps (fst (viewer_on_image ps (Some img) st)),
                           updateMinimap ps (fst (viewer_on_image ps (Some img) st)),
                           highlightMarker ps
                             (currentPointIndex (fst (viewer_on_image ps (Some img) st)))]) \<and>
           list_ex is_info (commands_of (viewer_on_image ps (Some img) st)) \<and>
           list_ex is_minimap (commands_of (viewer_on_image ps (Some img) st)) \<and>
           list_ex is_highlight (commands_of (viewer_on_image ps (Some img) st))) \<and>
        (\<not> isViewerMode st \<longrightarrow> commands_of (viewer_on_image ps (Some img) st) = []))"
  using prev_click_refreshes [OF assms, of v] next_click_refreshes [OF assms, of v]
    marker_click_refreshes [of v st i ps] marker_click_first_entry [of st ps i]
    init_timer_refreshes [OF assms] switch_view_refreshes [OF assms, of v]
    viewer_on_image_refreshes [of img ps st]
  by blast


theorem refreshes_after_navigation_witness:
  "0 \<le> currentPointIndex (run GraphViewer [p1, p2] [MarkerClick 0, InitTimer]) \<and>
   currentPointIndex (run GraphViewer [p1, p2] [MarkerClick 0, InitTimer]) < int (length [p1, p2]) \<and>
   viewer_ready GraphViewer (run GraphViewer [p1, p2] [MarkerClick 0, InitTimer]) \<and>
   isViewerMode (run GraphViewer [p1, p2] [MarkerClick 0, InitTimer]) \<and>
   currentPointIndex (run GraphViewer [p1, p2] [MarkerClick 0, InitTimer]) < int (length [p1, p2]) - 1 \<and>
   all_four_refreshes (commands_of (next_click GraphViewer [p1, p2]
      (run GraphViewer [p1, p2] [MarkerClick 0, InitTimer]))) \<and>
   all_four_refreshes (commands_of (marker_click GraphViewer [p1, p2] 1
      (run GraphViewer [p1, p2] [MarkerClick 0, InitTimer]))) \<and>
   \<not> list_ex is_minimap (commands_of (switch_view_click GraphViewer [p1, p2]
      (run GraphViewer [p1, p2] [MarkerClick 0, InitTimer]))) \<and>
   point_id (rearImage p2 3) \<noteq> [] \<and>
   findIndex (\<lambda>p. pid p = point_id (rearImage p2 3)) [p1, p2] \<noteq> - 1 \<and>
   \<not> list_ex is_imagery (commands_of (viewer_on_image [p1, p2] (Some (rearImage p2 3))
      (run GraphViewer [p1, p2] [MarkerClick 0, InitTimer]))) \<and>
   list_ex is_minimap (commands_of (viewer_on_image [p1, p2] (Some (rearImage p2 3))
      (run GraphViewer [p1, p2] [MarkerClick 0, InitTimer]))) \<and>
   viewer_ready FlatImage (run FlatImage [p1, p2] [MarkerClick 1]) \<and>
   0 < currentPointIndex (run FlatImage [p1, p2] [MarkerClick 1]) \<and>
   all_four_refreshes (commands_of (prev_click FlatImage [p1, p2]
      (run FlatImage [p1, p2] [MarkerClick 1]))) \<and>
   \<not> viewerInitialized initial_state \<and>
   commands_of (marker_click GraphViewer [p1, p2] 1 initial_state) = [ContainerActive True] \<and>
   \<not> viewerInitialized (run GraphViewer [p1, p2] [MarkerClick 1]) \<and>
   0 < pendingInit (run GraphViewer [p1, p2] [MarkerClick 1]) \<and>
   all_four_refreshes (commands_of (init_timer_fired [p1, p2]
      (run GraphViewer [p1, p2] [MarkerClick 1])))"
proof -
  let ?g = "run GraphViewer [p1, p2] [MarkerClick 0, InitTimer]"
  let ?f = "run FlatImage [p1, p2] [MarkerClick 1]"
  let ?w = "run GraphViewer [p1, p2] [MarkerClick 1]"
  let ?img = "rearImage p2 3"
  have g: "?g = \<lparr>currentPointIndex = 0, isShowingFront = True, isViewerMode = True,
                  viewerInitialized = True, pendingInit = 0\<rparr>"
    by (simp add: handler_defs)
  have f: "?f = \<lparr>currentPointIndex = 1, isShowingFront = True, isViewerMode = True,
                  viewerInitialized = False, pendingInit = 0\<rparr>"
    by (simp add: handler_defs)
  have w: "?w = \<lparr>currentPointIndex = 1, isShowingFront = True, isViewerMode = True,
                  viewerInitialized = False, pendingInit = 1\<rparr>"
    by (simp add: handler_defs)
  have g1: "0 \<le> currentPointIndex ?g" and g2: "currentPointIndex ?g < int (length [p1, p2])"
    and g3: "viewer_ready GraphViewer ?g" and g4: "isViewerMode ?g"
    and g5: "currentPointIndex ?g < int (length [p1, p2]) - 1"
    unfolding g by simp_all
  have f1: "0 \<le> currentPointIndex ?f" and f2: "currentPointIndex ?f < int (length [p1, p2])"
    and f3: "viewer_ready FlatImage ?f" and f4: "0 < currentPointIndex ?f"
    unfolding f by simp_all
  have w1: "0 \<le> currentPointIndex ?w" and w2: "currentPointIndex ?w < int (length [p1, p2])"
    and w3: "\<not> viewerInitialized ?w" and w4: "0 < pendingInit ?w"
    unfolding w by simp_all
  have i1: "0 \<le> currentPointIndex initial_state"
    and i2: "currentPointIndex initial_state < int (length [p1, p2])"
    and i3: "\<not> viewerInitialized initial_state"
    by (simp_all add: initial_state_def)
  have n: "(1::nat) < length [p1, p2]" by simp
  have e1: "point_id ?img \<noteq> []"
    by (simp add: rearImage_def createImageEnt_def p2_def)
  have e2: "findIndex (\<lambda>p. pid p = point_id ?img) [p1, p2] \<noteq> - 1"
    by (simp add: rearImage_def createImageEnt_def p1_def p2_def)
  have m: "commands_of (marker_click GraphViewer [p1, p2] 1 initial_state) =
             [ContainerActive True]"
    using refreshes_after_navigation [OF i1 i2, of GraphViewer 1 ?img] i3 n
    by (simp add: commands_of_def)
  have cg: "all_four_refreshes (commands_of (next_click GraphViewer [p1, p2] ?g)) \<and>
            all_four_refreshes (commands_of (marker_click GraphViewer [p1, p2] 1 ?g)) \<and>
            \<not> list_ex is_minimap (commands_of (switch_view_click GraphViewer [p1, p2] ?g)) \<and>
            \<not> list_ex is_imagery (commands_of (viewer_on_image [p1, p2] (Some ?img) ?g)) \<and>
            list_ex is_minimap (commands_of (viewer_on_image [p1, p2] (Some ?img) ?g))"
    using refreshes_after_navigation [OF g1 g2, of GraphViewer 1 ?img] g3 g4 g5 n e1 e2
    by blast
  have cf: "all_four_refreshes (commands_of (prev_click FlatImage [p1, p2] ?f))"
    using refreshes_after_navigation [OF f1 f2, of FlatImage 0 ?img] f3 f4
    by blast
  have cw: "all_four_refreshes (commands_of (init_timer_fired [p1, p2] ?w))"
    using refreshes_after_navigation [OF w1 w2, of GraphViewer 0 ?img] w3 w4
    by blast
  show ?thesis
    using cg cf cw
    by (intro conjI g1 g2 g3 g4 g5 f3 f4 w3 w4 i3 e1 e2 m) simp_all
qed

text \<open>
  C6 as stated fails in four ways. A switch-view click (here after a marker click on the
  first point) changes the side and issues an imagery command and an info-panel command,
  and nothing for the minimap or the markers, in both front ends. The first marker click
  of the graph front end changes the index and issues only the activation of the viewer
  container. An image reported by the engine changes index and side and issues no imagery
  command in viewer mode, and no command at all once the viewer is closed. A
  previous-point click in the graph front end before the deferred initialisation has run
  changes the index and issues no command: the handler ends with a type error on the
  viewer that does not exist yet.
\<close>

theorem refreshes_counterexample:
  "commands_of (step GraphViewer [p1, p2] SwitchViewClick
       (run GraphViewer [p1, p2] [MarkerClick 0, InitTimer])) =
     [ViewerMoveTo ''point1_rear'',
      SetTitleInfo \<lparr>position = 1, total = 2, view_label = ''Rear'', heading = 180,
                    prev_disabled = True, next_disabled = False\<rparr>] \<and>
   isShowingFront (fst (step GraphViewer [p1, p2] SwitchViewClick
       (run GraphViewer [p1, p2] [MarkerClick 0, InitTimer]))) \<noteq>
     isShowingFront (run GraphViewer [p1, p2] [MarkerClick 0, InitTimer]) \<and>
   \<not> all_four_refreshes (commands_of (step GraphViewer [p1, p2] SwitchViewClick
       (run GraphViewer [p1, p2] [MarkerClick 0, InitTimer]))) \<and>
   commands_of (step FlatImage [p1, p2] SwitchViewClick
       (run FlatImage [p1, p2] [MarkerClick 0])) =
     [SetImageSrc ''./images/r1.jpg'',
      SetTitleInfo \<lparr>position = 1, total = 2, view_label = ''Rear'', heading = 180,
                    prev_disabled = True, next_disabled = False\<rparr>] \<and>
   \<not> all_four_refreshes (commands_of (step FlatImage [p1, p2] SwitchViewClick
       (run FlatImage [p1, p2] [MarkerClick 0]))) \<and>
   currentPointIndex initial_state = 0 \<and>
   currentPointIndex (fst (step GraphViewer [p1, p2] (MarkerClick 1) initial_state)) = 1 \<and>
   commands_of (step GraphViewer [p1, p2] (MarkerClick 1) initial_state) =
     [ContainerActive True] \<and>
   \<not> all_four_refreshes (commands_of (step GraphViewer [p1, p2] (MarkerClick 1)
       initial_state)) \<and>
   currentPointIndex (run GraphViewer [p1, p2] [MarkerClick 0, InitTimer]) = 0 \<and>
   currentPointIndex (fst (step GraphViewer [p1, p2] (ViewerImage (Some (rearImage p2 3)))
       (run GraphViewer [p1, p2] [MarkerClick 0, InitTimer]))) = 1 \<and>
   commands_of (step GraphViewer [p1, p2] (ViewerImage (Some (rearImage p2 3)))
       (run GraphViewer [p1, p2] [MarkerClick 0, InitTimer])) =
     [ViewerSetZoom 0, ViewerSetCenter 0.5 0.95,
      SetTitleInfo \<lparr>position = 2, total = 2, view_label = ''Rear'', heading = 179,
                    prev_disabled = False, next_disabled = True\<rparr>,
      MinimapSetView 20 2 15, MinimapClearMarkers, MinimapAddMarker 20 2,
      RestyleMarkers [Default_style, Emphasized]] \<and>
   \<not> all_four_refreshes (commands_of (step GraphViewer [p1, p2]
       (ViewerImage (Some (rearImage p2 3)))
       (run GraphViewer [p1, p2] [MarkerClick 0, InitTimer]))) \<and>
   currentPointIndex (fst (step GraphViewer [p1, p2] (ViewerImage (Some (rearImage p2 3)))
       (run GraphViewer [p1, p2] [MarkerClick 0, InitTimer, CloseViewerClick]))) = 1 \<and>
   commands_of (step GraphViewer [p1, p2] (ViewerImage (Some (rearImage p2 3)))
       (run GraphViewer [p1, p2] [MarkerClick 0, InitTimer, CloseViewerClick])) = [] \<and>
   currentPointIndex (run GraphViewer [p1, p2] [MarkerClick 1]) = 1 \<and>
   currentPointIndex (fst (step GraphViewer [p1, p2] PrevClick
       (run GraphViewer [p1, p2] [MarkerClick 1]))) = 0 \<and>
   commands_of (step GraphViewer [p1, p2] PrevClick
       (run GraphViewer [p1, p2] [MarkerClick 1])) = [] \<and>
   error_of (step GraphViewer [p1, p2] PrevClick
       (run GraphViewer [p1, p2] [MarkerClick 1])) = Some undefined_viewer"
proof -
  have g: "run GraphViewer [p1, p2] [MarkerClick 0, InitTimer] =
             \<lparr>currentPointIndex = 0, isShowingFront = True, isViewerMode = True,
              viewerInitialized = True, pendingInit = 0\<rparr>"
    by (simp add: handler_defs)
  have c: "run GraphViewer [p1, p2] [MarkerClick 0, InitTimer, CloseViewerClick] =
             \<lparr>currentPointIndex = 0, isShowingFront = True, isViewerMode = False,
              viewerInitialized = True, pendingInit = 0\<rparr>"
    by (simp add: handler_defs)
  have f: "run FlatImage [p1, p2] [MarkerClick 0] =
             \<lparr>currentPointIndex = 0, isShowingFront = True, isViewerMode = True,
              viewerInitialized = False, pendingInit = 0\<rparr>"
    by (simp add: handler_defs)
  have w: "run GraphViewer [p1, p2] [MarkerClick 1] =
             \<lparr>currentPointIndex = 1, isShowingFront = True, isViewerMode = True,
              viewerInitialized = False, pendingInit = 1\<rparr>"
    by (simp add: handler_defs)
  show ?thesis
    unfolding g c f w
    by (simp add: handler_defs commands_of_def error_of_def all_four_refreshes_def
        rearImage_def createImageEnt_def rear_id_def p1_def p2_def js_rem_def)
qed

text \<open>
  C7. A switch-view click toggles the side and keeps the index; two clicks in succession
  give back the state they started from, hence the same image id, and the second click
  issues exactly the imagery refresh and the info-panel refresh of the starting state.
  Where the index is a position of the dataset (and the viewer exists, in the graph front
  end), that imagery refresh is one command, for the image of the starting state.
\<close>

theorem switch_view_involution:
  "fst (switch_view_click v ps st) = st\<lparr>isShowingFront := \<not> isShowingFront st\<rparr> \<and>
   currentPointIndex (fst (switch_view_click v ps st)) = currentPointIndex st \<and>
   fst (switch_view_click v ps (fst (switch_view_click v ps st))) = st \<and>
   currentImageId ps (fst (switch_view_click v ps (fst (switch_view_click v ps st)))) =
     currentImageId ps st \<and>
   snd (switch_view_click v ps (fst (switch_view_click v ps st))) =
     run_seq [showImage v ps st, updateViewerInfo ps st] \<and>
   (0 \<le> currentPointIndex st \<and> currentPointIndex st < int (length ps) \<and>
    (v = GraphViewer \<longrightarrow> viewerInitialized st) \<longrightarrow>
      (\<exists>c. showImage v ps st = Inr [c] \<and> is_imagery c \<and>
           filter is_imagery
             (commands_of (switch_view_click v ps (fst (switch_view_click v ps st)))) = [c]))"
proof -
  have twice: "switch_view_click v ps (fst (switch_view_click v ps st)) =
                 (st, run_seq [showImage v ps st, updateViewerInfo ps st])"
    by (simp add: switch_view_click_def Let_def)
  have img: "\<exists>c. showImage v ps st = Inr [c] \<and> is_imagery c \<and>
           filter is_imagery
             (commands_of (switch_view_click v ps (fst (switch_view_click v ps st)))) = [c]"
    if h: "0 \<le> currentPointIndex st" "currentPointIndex st < int (length ps)"
      "v = GraphViewer \<longrightarrow> viewerInitialized st"
  proof -
    obtain c where c: "showImage v ps st = Inr [c]" "is_imagery c"
      using showImage_valid [OF h] by blast
    obtain i where i: "updateViewerInfo ps st = Inr [SetTitleInfo i]"
      using updateViewerInfo_valid [OF h(1,2)] by blast
    have "filter is_imagery
            (commands_of (switch_view_click v ps (fst (switch_view_click v ps st)))) = [c]"
      using c(2) by (simp add: twice commands_of_def c(1) i)
    then show ?thesis using c by blast
  qed
  have "fst (switch_view_click v ps st) = st\<lparr>isShowingFront := \<not> isShowingFront st\<rparr>"
    by (simp add: switch_view_click_def Let_def)
  moreover have "currentPointIndex (fst (switch_view_click v ps st)) = currentPointIndex st"
    by (simp add: switch_view_click_def Let_def)
  moreover have "fst (switch_view_click v ps (fst (switch_view_click v ps st))) = st"
    by (simp add: twice)
  moreover have "currentImageId ps (fst (switch_view_click v ps (fst (switch_view_click v ps st)))) =
     currentImageId ps st"
    by (simp add: twice)
  moreover have "snd (switch_view_click v ps (fst (switch_view_click v ps st))) =
     run_seq [showImage v ps st, updateViewerInfo ps st]"
    by (simp add: twice)
  ultimately show ?thesis using img by blast
qed

theorem switch_view_involution_witness:
  "0 \<le> currentPointIndex (run GraphViewer [p1, p2] [MarkerClick 1, InitTimer]) \<and>
   currentPointIndex (run GraphViewer [p1, p2] [MarkerClick 1, InitTimer]) < int (length [p1, p2]) \<and>
   viewerInitialized (run GraphViewer [p1, p2] [MarkerClick 1, InitTimer]) \<and>
   showImage GraphViewer [p1, p2] (run GraphViewer [p1, p2] [MarkerClick 1, InitTimer]) =
     Inr [ViewerMoveTo ''point2_front''] \<and>
   filter is_imagery (commands_of (switch_view_click GraphViewer [p1, p2]
      (fst (switch_view_click GraphViewer [p1, p2]
          (run GraphViewer [p1, p2] [MarkerClick 1, InitTimer]))))) =
     [ViewerMoveTo ''point2_front''] \<and>
   fst (switch_view_click GraphViewer [p1, p2]
      (fst (switch_view_click GraphViewer [p1, p2]
          (run GraphViewer [p1, p2] [MarkerClick 1, InitTimer])))) =
     run GraphViewer [p1, p2] [MarkerClick 1, InitTimer]"
proof -
  let ?g = "run GraphViewer [p1, p2] [MarkerClick 1, InitTimer]"
  have g: "?g = \<lparr>currentPointIndex = 1, isShowingFront = True, isViewerMode = True,
                  viewerInitialized = True, pendingInit = 0\<rparr>"
    by (simp add: handler_defs)
  have g1: "0 \<le> currentPointIndex ?g" and g2: "currentPointIndex ?g < int (length [p1, p2])"
    and g3: "viewerInitialized ?g"
    unfolding g by simp_all
  have s: "showImage GraphViewer [p1, p2] ?g = Inr [ViewerMoveTo ''point2_front'']"
    unfolding g by (simp add: handler_defs p2_def)
  show ?thesis
    using g1 g2 g3 s switch_view_involution [of GraphViewer "[p1, p2]" ?g]
    by auto
qed

section \<open>Claims about the byte fetch\<close>

lemma getImageBuffer_fetches_once:
  "filter is_fetch (fst (getImageBuffer net u)) = [Fetch u]"
  by (simp add: getImageBuffer_def Let_def split: promise.splits)

text \<open>
  C9, as the code has it. The byte fetch calls \<open>fetch\<close> exactly once, whatever the outcome.
  A response that is not ok rejects with an \<open>Error\<close> whose message is
  \<open>Failed to load image: \<close> followed by the URL, the same for every status; a transport
  error rejects with the error of \<open>fetch\<close> itself, unchanged; both are logged with the URL
  and reach the caller as a rejected promise. An ok response gives what reading its body
  gives.
\<close>

theorem getImageBuffer_outcomes:
  "filter is_fetch (fst (getImageBuffer net u)) = [Fetch u] \<and>
   (\<forall>resp. net u = Fulfilled resp \<and> \<not> ok resp \<longrightarrow>
      getImageBuffer net u =
        ([ConsoleLog (''getImageBuffer called for '' @ u), Fetch u,
          ConsoleError (''Error loading image '' @ u @ '':'')
            (Error (''Failed to load image: '' @ u))],
         Rejected (Error (''Failed to load image: '' @ u)))) \<and>
   (\<forall>e. net u = Rejected e \<longrightarrow>
      getImageBuffer net u =
        ([ConsoleLog (''getImageBuffer called for '' @ u), Fetch u,
          ConsoleError (''Error loading image '' @ u @ '':'') e],
         Rejected e)) \<and>
   (\<forall>resp. net u = Fulfilled resp \<and> ok resp \<longrightarrow>
      snd (getImageBuffer net u) = body resp) \<and>
   (\<forall>resp b. net u = Fulfilled resp \<and> ok resp \<and> body resp = Fulfilled b \<longrightarrow>
      getImageBuffer net u =
        ([ConsoleLog (''getImageBuffer called for '' @ u), Fetch u], Fulfilled b))"
proof -
  have 1: "filter is_fetch (fst (getImageBuffer net u)) = [Fetch u]"
    by (rule getImageBuffer_fetches_once)
  have 2: "getImageBuffer net u =
        ([ConsoleLog (''getImageBuffer called for '' @ u), Fetch u,
          ConsoleError (''Error loading image '' @ u @ '':'')
            (Error (''Failed to load image: '' @ u))],
         Rejected (Error (''Failed to load image: '' @ u)))"
    if "net u = Fulfilled resp" "\<not> ok resp" for resp
    using that by (simp add: getImageBuffer_def)
  have 3: "getImageBuffer net u =
        ([ConsoleLog (''getImageBuffer called for '' @ u), Fetch u,
          ConsoleError (''Error loading image '' @ u @ '':'') e],
         Rejected e)"
    if "net u = Rejected e" for e
    using that by (simp add: getImageBuffer_def)
  have 4: "snd (getImageBuffer net u) = body resp"
    if "net u = Fulfilled resp" "ok resp" for resp
    using that by (cases "body resp") (simp_all add: getImageBuffer_def)
  have 5: "getImageBuffer net u =
        ([ConsoleLog (''getImageBuffer called for '' @ u), Fetch u], Fulfilled b)"
    if "net u = Fulfilled resp" "ok resp" "body resp = Fulfilled b" for resp b
    using that by (simp add: getImageBuffer_def)
  show ?thesis using 1 2 3 4 5 by blast
qed

theorem getImageBuffer_outcomes_witness:
  "net_status 404 ''./images/a.jpg'' =
     Fulfilled \<lparr>ok = False, status = 404, body = Fulfilled [1, 2, 3]\<rparr> \<and>
   snd (getImageBuffer (net_status 404) ''./images/a.jpg'') =
     Rejected (Error ''Failed to load image: ./images/a.jpg'') \<and>
   net_down ''./images/a.jpg'' = Rejected (TypeError ''Failed to fetch'') \<and>
   snd (getImageBuffer net_down ''./images/a.jpg'') = Rejected (TypeError ''Failed to fetch'') \<and>
   net_status 200 ''./images/a.jpg'' =
     Fulfilled \<lparr>ok = True, status = 200, body = Fulfilled [1, 2, 3]\<rparr> \<and>
   getImageBuffer (net_status 200) ''./images/a.jpg'' =
     ([ConsoleLog ''getImageBuffer called for ./images/a.jpg'', Fetch ''./images/a.jpg''],
      Fulfilled [1, 2, 3])"
proof -
  have a: "net_status 404 ''./images/a.jpg'' =
             Fulfilled \<lparr>ok = False, status = 404, body = Fulfilled [1, 2, 3]\<rparr>"
    by (simp add: net_status_def)
  have b: "net_down ''./images/a.jpg'' = Rejected (TypeError ''Failed to fetch'')"
    by (simp add: net_down_def)
  have c: "net_status 200 ''./images/a.jpg'' =
             Fulfilled \<lparr>ok = True, status = 200, body = Fulfilled [1, 2, 3]\<rparr>"
    by (simp add: net_status_def)
  show ?thesis
    using a b c
      getImageBuffer_outcomes [of "net_status 404" "''./images/a.jpg''"]
      getImageBuffer_outcomes [of net_down "''./images/a.jpg''"]
      getImageBuffer_outcomes [of "net_status 200" "''./images/a.jpg''"]
    by simp
qed

text \<open>
  C9 as stated fails: for a response with status 404 the rejection is an \<open>Error\<close> whose
  message holds the URL and not the status, and it is the very rejection that status 500
  gives; for a transport error the rejection holds neither the URL nor a status.
\<close>

theorem getImageBuffer_status_counterexample:
  "snd (getImageBuffer (net_status 404) ''./images/a.jpg'') =
     Rejected \<lparr>err_name = ''Error'', message = ''Failed to load image: ./images/a.jpg''\<rparr> \<and>
   \<not> js_includes ''Failed to load image: ./images/a.jpg'' ''404'' \<and>
   snd (getImageBuffer (net_status 500) ''./images/a.jpg'') =
     snd (getImageBuffer (net_status 404) ''./images/a.jpg'') \<and>
   snd (getImageBuffer net_down ''./images/a.jpg'') =
     Rejected \<lparr>err_name = ''TypeError'', message = ''Failed to fetch''\<rparr> \<and>
   \<not> js_includes ''Failed to fetch'' ''./images/a.jpg''"
  by (simp add: getImageBuffer_def net_status_def net_down_def Error_def TypeError_def)

section \<open>Claims about the loader\<close>

lemma set_insert_row: "set (insert_row cmp x ys) = insert x (set ys)"
  by (induction ys) auto

lemma set_sort_rows: "set (sort_rows cmp rows) = set rows"
  by (induction rows) (simp_all add: sort_rows_def set_insert_row)

lemma mset_insert_row: "mset (insert_row cmp x ys) = add_mset x (mset ys)"
  by (induction ys) auto

lemma mset_sort_rows: "mset (sort_rows cmp rows) = mset rows"
  by (induction rows) (simp_all add: sort_rows_def mset_insert_row)

lemma loadCSVData_Fulfilled:
  "loadCSVData v cmp outcome = Fulfilled data \<Longrightarrow>
   \<exists>rows. outcome = PapaComplete (Some rows) \<and>
          data = sort_rows cmp (filter (valid_row v) rows)"
  by (auto simp: loadCSVData_def Let_def split: papa_outcome.splits option.splits if_splits)

lemma falsy_not_valid:
  "\<not> truthy (row_id r) \<or> \<not> truthy (row_lat r) \<or> \<not> truthy (row_long r) \<or>
   \<not> truthy (row_heading_front r) \<Longrightarrow> \<not> valid_row v r"
  by (cases v) auto

text \<open>
  C10. The survey data that the loader hands on are, up to order, the parsed rows whose
  required fields are all truthy. A row with a falsy required field is not among them: in
  particular a row whose \<open>heading_front\<close>, \<open>lat\<close> or \<open>long\<close> is the number 0, and, in the
  flat-image front end, a row whose \<open>front\<close> or \<open>rear\<close> is falsy.
\<close>

theorem loader_drops_falsy:
  assumes "loadCSVData v cmp (PapaComplete (Some rows)) = Fulfilled data"
  shows "mset data = mset (filter (valid_row v) rows) \<and>
         (\<forall>r \<in> set data. truthy (row_id r) \<and> truthy (row_lat r) \<and> truthy (row_long r) \<and>
                          truthy (row_heading_front r)) \<and>
         (v = FlatImage \<longrightarrow> (\<forall>r \<in> set data. truthy (row_front r) \<and> truthy (row_rear r))) \<and>
         (row_heading_front r = JNum 0 \<or> row_lat r = JNum 0 \<or> row_long r = JNum 0
            \<longrightarrow> r \<notin> set data)"
proof -
  have d: "data = sort_rows cmp (filter (valid_row v) rows)"
    using loadCSVData_Fulfilled [OF assms] by simp
  have s: "set data = {r \<in> set rows. valid_row v r}"
    by (simp add: d set_sort_rows)
  have 1: "mset data = mset (filter (valid_row v) rows)"
    by (simp add: d mset_sort_rows)
  have 2: "\<forall>r \<in> set data. truthy (row_id r) \<and> truthy (row_lat r) \<and> truthy (row_long r) \<and>
                          truthy (row_heading_front r)"
    using s by (cases v) auto
  have 3: "v = FlatImage \<longrightarrow> (\<forall>r \<in> set data. truthy (row_front r) \<and> truthy (row_rear r))"
    using s by auto
  have 4: "row_heading_front r = JNum 0 \<or> row_lat r = JNum 0 \<or> row_long r = JNum 0
            \<longrightarrow> r \<notin> set data"
    using 2 by auto
  show ?thesis using 1 2 3 4 by blast
qed

theorem loader_drops_falsy_witness:
  "loadCSVData GraphViewer cmp_ex (PapaComplete (Some [row_north, row_ok, row_equator])) =
     Fulfilled [row_ok] \<and>
   row_heading_front row_north = JNum 0 \<and> row_north \<notin> set [row_ok] \<and>
   row_lat row_equator = JNum 0 \<and> row_equator \<notin> set [row_ok] \<and>
   mset [row_ok] = mset (filter (valid_row GraphViewer) [row_north, row_ok, row_equator])"
proof -
  have l: "loadCSVData GraphViewer cmp_ex (PapaComplete (Some [row_north, row_ok, row_equator])) =
             Fulfilled [row_ok]"
    by (simp add: loadCSVData_def sort_rows_def row_north_def row_ok_def row_equator_def)
  have h: "row_heading_front row_north = JNum 0" by (simp add: row_north_def)
  have e: "row_lat row_equator = JNum 0" by (simp add: row_equator_def)
  show ?thesis
    using l h e loader_drops_falsy [OF l, of row_north] loader_drops_falsy [OF l, of row_equator]
    by blast
qed

end
